theory Spec2Isabelle
  imports Main "HOL-Library.Word" "HOL-Library.AList" "HOL-Library.Multiset"
begin

section \<open>The segment engine of the controller (trisolaris/metadata/segment.go)\<close>

text \<open>
  Modelling conventions.
  \<^item> Go's \<open>int\<close> is the 64-bit machine integer of the platforms the controller is built for
    (\<open>go_int\<close>); \<open>uint32(x)\<close> keeps the low 32 bits (\<open>uint32\<close>).
  \<^item> A Go \<open>map\<close> is an association list: \<open>map_of\<close> is the lookup, \<open>AList.update\<close> the
    assignment \<open>m[k] = v\<close>. A Go map has one entry per key: \<open>wf_PlatformRawData\<close> says so
    for the maps of the snapshot.
  \<^item> A \<open>mapset.Set\<close> is a list of its elements; a \<open>*models.VInterface\<close> is the record it
    points to (nothing writes through the pointer). The set of claimed ids, which the code
    only adds to and tests, is a HOL set.
  \<^item> Go leaves the order in which \<open>range\<close> visits a map, and \<open>Iter\<close> a set, unspecified.
    The functions named as in the source visit in list order. The functions with the suffix
    \<open>_ord\<close> take the order of every iteration as a parameter; the former are the latter
    for the order \<open>forward\<close>.
  \<^item> A method that writes to \<open>s\<close> takes the engine state and returns the new one; a query
    returns its segments and the new state. A \<open>nil\<close> slice is the empty list.
  \<^item> \<open>log.Infof\<close> has no effect on the state and is left out.
\<close>

type_synonym go_int = "64 word"
type_synonym uint32 = "32 word"

definition uint32 :: "go_int \<Rightarrow> uint32" where
  "uint32 x = ucast x"

subsection \<open>Types declared outside segment.go\<close>

text \<open>
  Modelled from the spec: the declarations of \<open>models.VInterface\<close>, \<open>models.PodNode\<close>,
  \<open>trident.Segment\<close> and \<open>PlatformRawData\<close> are not part of the source at hand. The records
  below carry the fields segment.go reads and writes, with the types it uses them at
  (InterfaceRecord, SegmentView and RawTopologySnapshot of the specification).
\<close>

record VInterface =
  vif_Mac :: string
  vif_ID :: go_int
  vif_NetworkID :: go_int

record PodNode =
  podnode_ID :: go_int

record trident_Segment =
  seg_Id :: uint32
  seg_Mac :: "string list"
  seg_InterfaceId :: "uint32 list"

record PlatformRawData =
  podNodeIDtoPodIDs :: "(go_int \<times> go_int list) list"
  podIDToVifs :: "(go_int \<times> VInterface list) list"
  podNodeIDToVmID :: "(go_int \<times> go_int) list"
  podNodeIDToVifs :: "(go_int \<times> VInterface list) list"
  idToPodNode :: "(go_int \<times> PodNode) list"
  serverToVmIDs :: "(string \<times> go_int list) list"
  vmIDToVifs :: "(go_int \<times> VInterface list) list"
  hostIDToVifs :: "(go_int \<times> VInterface list) list"
  gatewayHostIDToVifs :: "(go_int \<times> VInterface list) list"
  deviceVifs :: "VInterface list"

definition wf_PlatformRawData :: "PlatformRawData \<Rightarrow> bool" where
  "wf_PlatformRawData rawData =
     (distinct (map fst (podNodeIDtoPodIDs rawData)) \<and>
      distinct (map fst (podIDToVifs rawData)) \<and>
      distinct (map fst (podNodeIDToVmID rawData)) \<and>
      distinct (map fst (podNodeIDToVifs rawData)) \<and>
      distinct (map fst (idToPodNode rawData)) \<and>
      distinct (map fst (serverToVmIDs rawData)) \<and>
      distinct (map fst (vmIDToVifs rawData)) \<and>
      distinct (map fst (hostIDToVifs rawData)) \<and>
      distinct (map fst (gatewayHostIDToVifs rawData)))"

subsection \<open>MacID and NetworkMacs\<close>

record MacID =
  Mac :: string
  ID :: go_int

definition newMacID :: "VInterface \<Rightarrow> MacID" where
  "newMacID vif = \<lparr>Mac = vif_Mac vif, ID = vif_ID vif\<rparr>"

type_synonym NetworkMacs = "(go_int \<times> MacID list) list"
type_synonym IDToNetworkMacs = "(go_int \<times> NetworkMacs) list"
type_synonym ServerToNetworkMacs = "(string \<times> NetworkMacs) list"

definition newNetworkMacs :: NetworkMacs where
  "newNetworkMacs = []"

definition NetworkMacs_add :: "VInterface \<Rightarrow> NetworkMacs \<Rightarrow> NetworkMacs" where
  "NetworkMacs_add vif n =
     (if vif_Mac vif = [] then n
      else
        (let macID = newMacID vif; id' = vif_NetworkID vif in
         (case map_of n id' of
            Some cur \<Rightarrow> AList.update id' (cur @ [macID]) n
          | None \<Rightarrow> AList.update id' [macID] n)))"

definition NetworkMacs_get :: "NetworkMacs \<Rightarrow> go_int \<Rightarrow> MacID list" where
  "NetworkMacs_get n id' = (case map_of n id' of Some macIDs \<Rightarrow> macIDs | None \<Rightarrow> [])"

definition newIDToNetworkMacs :: IDToNetworkMacs where
  "newIDToNetworkMacs = []"

definition newServerToNetworkMacs :: ServerToNetworkMacs where
  "newServerToNetworkMacs = []"

definition IDToNetworkMacs_add :: "go_int \<Rightarrow> NetworkMacs \<Rightarrow> IDToNetworkMacs \<Rightarrow> IDToNetworkMacs" where
  "IDToNetworkMacs_add id' macs t = AList.update id' macs t"

definition ServerToNetworkMacs_add ::
  "string \<Rightarrow> NetworkMacs \<Rightarrow> ServerToNetworkMacs \<Rightarrow> ServerToNetworkMacs" where
  "ServerToNetworkMacs_add server macs t = AList.update server macs t"

subsection \<open>IDToVifs\<close>

type_synonym IDToVifs = "(go_int \<times> VInterface list) list"

definition newIDToVifs :: IDToVifs where
  "newIDToVifs = []"

text \<open>\<open>Set.Add\<close>: an element already in the set is not added again.\<close>

definition mapset_Add :: "'a \<Rightarrow> 'a list \<Rightarrow> 'a list" where
  "mapset_Add x xs = (if x \<in> set xs then xs else xs @ [x])"

definition IDToVifs_add :: "go_int \<Rightarrow> VInterface list \<Rightarrow> IDToVifs \<Rightarrow> IDToVifs" where
  "IDToVifs_add id' vifs v =
     (case map_of v id' of
        Some cur \<Rightarrow> AList.update id' (fold mapset_Add vifs cur) v
      | None \<Rightarrow> AList.update id' vifs v)"

subsection \<open>The engine state\<close>

record Segment =
  launchServerToSegments :: ServerToNetworkMacs
  hostIDToSegments :: IDToNetworkMacs
  gatewayHostIDToSegments :: IDToNetworkMacs
  allGatewayHostSegments :: "trident_Segment list"
  vtapUsedVInterfaceIDs :: "go_int set"
  notVtapUsedSegments :: "trident_Segment list"
  vmIDToSegments :: IDToNetworkMacs
  bmDedicatedRemoteSegments :: "trident_Segment list"
  podNodeIDToSegments :: IDToNetworkMacs
  vmIDToPodNodeAllVifs :: IDToVifs
  podNodeIDToAllVifs :: IDToVifs

definition newSegment :: Segment where
  "newSegment =
     \<lparr>launchServerToSegments = newServerToNetworkMacs,
      hostIDToSegments = newIDToNetworkMacs,
      gatewayHostIDToSegments = newIDToNetworkMacs,
      allGatewayHostSegments = [],
      vtapUsedVInterfaceIDs = {},
      notVtapUsedSegments = [],
      vmIDToSegments = newIDToNetworkMacs,
      bmDedicatedRemoteSegments = [],
      podNodeIDToSegments = newIDToNetworkMacs,
      vmIDToPodNodeAllVifs = newIDToVifs,
      podNodeIDToAllVifs = newIDToVifs\<rparr>"

subsection \<open>Resolving one entity: getSegmentsByID and getSegmentsByServer\<close>

text \<open>
  The body of the inner loop over the \<open>macIDs\<close> of one network: append the MAC and the
  converted id, and add the id to the claimed set.
\<close>

definition claim_macID ::
  "MacID \<Rightarrow> string list \<times> uint32 list \<times> go_int set \<Rightarrow> string list \<times> uint32 list \<times> go_int set" where
  "claim_macID macID acc =
     (case acc of (macs, vifIDs, used) \<Rightarrow>
        (macs @ [Mac macID], vifIDs @ [uint32 (ID macID)], insert (ID macID) used))"

text \<open>The body of the outer loop over the networks of the entity: one segment each.\<close>

definition segment_of_network ::
  "go_int \<times> MacID list \<Rightarrow> trident_Segment list \<times> go_int set \<Rightarrow> trident_Segment list \<times> go_int set" where
  "segment_of_network entry acc =
     (case entry of (networkID, macIDs) \<Rightarrow>
       (case acc of (segments, used) \<Rightarrow>
         (case fold claim_macID macIDs ([], [], used) of (macs, vifIDs, used') \<Rightarrow>
            (segments @ [\<lparr>seg_Id = uint32 networkID, seg_Mac = macs, seg_InterfaceId = vifIDs\<rparr>],
             used'))))"

definition getSegmentsByID ::
  "IDToNetworkMacs \<Rightarrow> go_int \<Rightarrow> Segment \<Rightarrow> trident_Segment list \<times> Segment" where
  "getSegmentsByID t id' s =
     (case map_of t id' of
        None \<Rightarrow> ([], s)
      | Some networkMacs \<Rightarrow>
          (case fold segment_of_network networkMacs ([], vtapUsedVInterfaceIDs s) of
             (segments, used) \<Rightarrow> (segments, s\<lparr>vtapUsedVInterfaceIDs := used\<rparr>)))"

definition getSegmentsByServer ::
  "ServerToNetworkMacs \<Rightarrow> string \<Rightarrow> Segment \<Rightarrow> trident_Segment list \<times> Segment" where
  "getSegmentsByServer t server s =
     (case map_of t server of
        None \<Rightarrow> ([], s)
      | Some networkMacs \<Rightarrow>
          (case fold segment_of_network networkMacs ([], vtapUsedVInterfaceIDs s) of
             (segments, used) \<Rightarrow> (segments, s\<lparr>vtapUsedVInterfaceIDs := used\<rparr>)))"

subsection \<open>Getters and the reset of the claimed set\<close>

definition GetAllGatewayHostSegments :: "Segment \<Rightarrow> trident_Segment list \<times> Segment" where
  "GetAllGatewayHostSegments s = (allGatewayHostSegments s, s)"

definition GetNotVtapUsedSegments :: "Segment \<Rightarrow> trident_Segment list \<times> Segment" where
  "GetNotVtapUsedSegments s = (notVtapUsedSegments s, s)"

definition ClearVTapUsedVInterfaceIDs :: "Segment \<Rightarrow> Segment" where
  "ClearVTapUsedVInterfaceIDs s = s\<lparr>vtapUsedVInterfaceIDs := {}\<rparr>"

subsection \<open>The build\<close>

text \<open>
  convertDBInfo. The first loop visits the pod-nodes of \<open>idToPodNode\<close>: the pod-node's own
  interfaces, then the interfaces of each of its pods, are added under the pod-node's id.
  The second loop adds each pod-node's collection under its owning VM.
\<close>

definition podnode_vifs :: "PlatformRawData \<Rightarrow> PodNode \<Rightarrow> IDToVifs \<Rightarrow> IDToVifs" where
  "podnode_vifs rawData podnode podNodeIDToAllVifs' =
     (let podnodeID = podnode_ID podnode;
          own = (case map_of (podNodeIDToVifs rawData) podnodeID of
                   Some vifs \<Rightarrow> IDToVifs_add podnodeID vifs podNodeIDToAllVifs'
                 | None \<Rightarrow> podNodeIDToAllVifs')
      in (case map_of (podNodeIDtoPodIDs rawData) podnodeID of
           Some podIDs \<Rightarrow>
             fold (\<lambda>id' acc.
                     (case map_of (podIDToVifs rawData) id' of
                        Some vifs \<Rightarrow> IDToVifs_add podnodeID vifs acc
                      | None \<Rightarrow> acc))
                  podIDs own
         | None \<Rightarrow> own))"

definition vm_podnode_vifs :: "IDToVifs \<Rightarrow> go_int \<times> go_int \<Rightarrow> IDToVifs \<Rightarrow> IDToVifs" where
  "vm_podnode_vifs podNodeIDToAllVifs' entry vmIDToPodNodeAllVifs' =
     (case entry of (podnodeID, vmID) \<Rightarrow>
        (case map_of podNodeIDToAllVifs' podnodeID of
           Some allVifs \<Rightarrow> IDToVifs_add vmID allVifs vmIDToPodNodeAllVifs'
         | None \<Rightarrow> vmIDToPodNodeAllVifs'))"

definition convertDBInfo :: "PlatformRawData \<Rightarrow> Segment \<Rightarrow> Segment" where
  "convertDBInfo rawData s =
     (let podNodeIDToAllVifs' =
            fold (\<lambda>entry. podnode_vifs rawData (snd entry)) (idToPodNode rawData) newIDToVifs;
          vmIDToPodNodeAllVifs' =
            fold (vm_podnode_vifs podNodeIDToAllVifs') (podNodeIDToVmID rawData) newIDToVifs
      in s\<lparr>podNodeIDToAllVifs := podNodeIDToAllVifs',
            vmIDToPodNodeAllVifs := vmIDToPodNodeAllVifs'\<rparr>)"

text \<open>
  generateBaseSegmentsFromDB: five loops, one per index, each into a fresh map; the five
  fields are assigned at the end.
\<close>

definition add_vifs_of :: "(go_int \<times> VInterface list) list \<Rightarrow> go_int \<Rightarrow> NetworkMacs \<Rightarrow> NetworkMacs" where
  "add_vifs_of m id' netWorkMacs =
     (case map_of m id' of
        Some vifs \<Rightarrow> fold NetworkMacs_add vifs netWorkMacs
      | None \<Rightarrow> netWorkMacs)"

definition server_networkMacs :: "PlatformRawData \<Rightarrow> Segment \<Rightarrow> go_int list \<Rightarrow> NetworkMacs" where
  "server_networkMacs rawData s vmids =
     fold (\<lambda>id' netWorkMacs.
             add_vifs_of (vmIDToPodNodeAllVifs s) id' (add_vifs_of (vmIDToVifs rawData) id' netWorkMacs))
          vmids newNetworkMacs"

definition generateBaseSegmentsFromDB :: "PlatformRawData \<Rightarrow> Segment \<Rightarrow> Segment" where
  "generateBaseSegmentsFromDB rawData s =
     (let launchServerToSegments' =
            fold (\<lambda>(server, vmids). AList.update server (server_networkMacs rawData s vmids))
                 (serverToVmIDs rawData) newServerToNetworkMacs;
          hostIDToSegments' =
            fold (\<lambda>(hostID, vifs). AList.update hostID (fold NetworkMacs_add vifs newNetworkMacs))
                 (hostIDToVifs rawData) newIDToNetworkMacs;
          gatewayHostIDToSegments' =
            fold (\<lambda>(hostID, vifs). AList.update hostID (fold NetworkMacs_add vifs newNetworkMacs))
                 (gatewayHostIDToVifs rawData) newIDToNetworkMacs;
          vmIDToSegments' =
            fold (\<lambda>(vmID, vifs).
                    AList.update vmID
                      (add_vifs_of (vmIDToPodNodeAllVifs s) vmID (fold NetworkMacs_add vifs newNetworkMacs)))
                 (vmIDToVifs rawData) newIDToNetworkMacs;
          podNodeIDToSegments' =
            fold (\<lambda>(podNodeID, vifs). AList.update podNodeID (fold NetworkMacs_add vifs newNetworkMacs))
                 (podNodeIDToAllVifs s) newIDToNetworkMacs
      in s\<lparr>launchServerToSegments := launchServerToSegments',
            hostIDToSegments := hostIDToSegments',
            gatewayHostIDToSegments := gatewayHostIDToSegments',
            vmIDToSegments := vmIDToSegments',
            podNodeIDToSegments := podNodeIDToSegments'\<rparr>)"

text \<open>
  generateGatewayHostSegments: one segment, with the fixed id 1, for every network of
  every gateway host; the claimed set is not touched.
\<close>

definition gateway_segment :: "go_int \<times> MacID list \<Rightarrow> trident_Segment list \<Rightarrow> trident_Segment list" where
  "gateway_segment entry segments =
     (case entry of (networkID, macIDs) \<Rightarrow>
       (case fold (\<lambda>macID (macs, vifIDs). (macs @ [Mac macID], vifIDs @ [uint32 (ID macID)]))
                  macIDs ([], []) of
          (macs, vifIDs) \<Rightarrow>
            segments @ [\<lparr>seg_Id = uint32 1, seg_Mac = macs, seg_InterfaceId = vifIDs\<rparr>]))"

definition generateGatewayHostSegments :: "Segment \<Rightarrow> Segment" where
  "generateGatewayHostSegments s =
     s\<lparr>allGatewayHostSegments :=
         fold (\<lambda>(hostID, hostSegments). fold gateway_segment hostSegments)
              (gatewayHostIDToSegments s) []\<rparr>"

definition generateBaseSegments :: "PlatformRawData \<Rightarrow> Segment \<Rightarrow> Segment" where
  "generateBaseSegments rawData s =
     generateGatewayHostSegments (generateBaseSegmentsFromDB rawData (convertDBInfo rawData s))"

subsection \<open>The catch-all segment\<close>

definition GenerateNoVTapUsedSegments :: "PlatformRawData \<Rightarrow> Segment \<Rightarrow> Segment" where
  "GenerateNoVTapUsedSegments rawData s =
     (case fold (\<lambda>vif (macs, vifIDs).
                   if vif_ID vif \<notin> vtapUsedVInterfaceIDs s
                   then (macs @ [vif_Mac vif], vifIDs @ [uint32 (vif_ID vif)])
                   else (macs, vifIDs))
                (deviceVifs rawData) ([], []) of
        (macs, vifIDs) \<Rightarrow>
          s\<lparr>notVtapUsedSegments :=
              (if length macs > 0
               then [\<lparr>seg_Id = uint32 1, seg_Mac = macs, seg_InterfaceId = vifIDs\<rparr>]
               else [])\<rparr>)"

subsection \<open>The queries\<close>

definition GetLaunchServerSegments :: "string \<Rightarrow> Segment \<Rightarrow> trident_Segment list \<times> Segment" where
  "GetLaunchServerSegments launchServer s =
     getSegmentsByServer (launchServerToSegments s) launchServer s"

definition GetVMIDSegments :: "go_int \<Rightarrow> Segment \<Rightarrow> trident_Segment list \<times> Segment" where
  "GetVMIDSegments vmID s = getSegmentsByID (vmIDToSegments s) vmID s"

definition GetHostIDSegments :: "go_int \<Rightarrow> Segment \<Rightarrow> trident_Segment list \<times> Segment" where
  "GetHostIDSegments hostID s = getSegmentsByID (hostIDToSegments s) hostID s"

definition GetPodNodeSegments :: "go_int \<Rightarrow> Segment \<Rightarrow> trident_Segment list \<times> Segment" where
  "GetPodNodeSegments podNodeID s = getSegmentsByID (podNodeIDToSegments s) podNodeID s"

text \<open>
  GetTypeVMSegments: the two lookups append to the same \<open>macs\<close> and \<open>vifIDs\<close>; one segment
  with the fixed id 1 is returned whatever the lookups found.
\<close>

definition claim_networkMacs ::
  "NetworkMacs \<Rightarrow> string list \<times> uint32 list \<times> go_int set \<Rightarrow> string list \<times> uint32 list \<times> go_int set" where
  "claim_networkMacs networkMacs acc = fold (\<lambda>(networkID, macIDs). fold claim_macID macIDs) networkMacs acc"

definition GetTypeVMSegments :: "string \<Rightarrow> go_int \<Rightarrow> Segment \<Rightarrow> trident_Segment list \<times> Segment" where
  "GetTypeVMSegments launchServer hostID s =
     (let acc0 = ([], [], vtapUsedVInterfaceIDs s);
          acc1 = (case map_of (launchServerToSegments s) launchServer of
                    Some networkMacs \<Rightarrow> claim_networkMacs networkMacs acc0
                  | None \<Rightarrow> acc0);
          acc2 = (case map_of (hostIDToSegments s) hostID of
                    Some networkMacs \<Rightarrow> claim_networkMacs networkMacs acc1
                  | None \<Rightarrow> acc1)
      in (case acc2 of (macs, vifIDs, used) \<Rightarrow>
            ([\<lparr>seg_Id = uint32 1, seg_Mac = macs, seg_InterfaceId = vifIDs\<rparr>],
             s\<lparr>vtapUsedVInterfaceIDs := used\<rparr>)))"

subsection \<open>The operations of the specification, and sequences of them\<close>

text \<open>
  \<open>notYetClaimedSegments(snapshot)\<close> of the specification is the computation of the
  catch-all segment followed by the getter of the cached list.
\<close>

definition notYetClaimedSegments :: "PlatformRawData \<Rightarrow> Segment \<Rightarrow> trident_Segment list \<times> Segment" where
  "notYetClaimedSegments rawData s = GetNotVtapUsedSegments (GenerateNoVTapUsedSegments rawData s)"

datatype query =
    ByLaunchServer string
  | ByHostID go_int
  | ByVMID go_int
  | ByPodNodeID go_int
  | ByVMTypeCombined string go_int

fun run_query :: "query \<Rightarrow> Segment \<Rightarrow> trident_Segment list \<times> Segment" where
  "run_query (ByLaunchServer server) s = GetLaunchServerSegments server s"
| "run_query (ByHostID hostID) s = GetHostIDSegments hostID s"
| "run_query (ByVMID vmID) s = GetVMIDSegments vmID s"
| "run_query (ByPodNodeID podNodeID) s = GetPodNodeSegments podNodeID s"
| "run_query (ByVMTypeCombined server hostID) s = GetTypeVMSegments server hostID s"

definition run_queries :: "query list \<Rightarrow> Segment \<Rightarrow> Segment" where
  "run_queries qs s = fold (\<lambda>q s'. snd (run_query q s')) qs s"

datatype operation =
    Rebuild PlatformRawData
  | Query query
  | AllGatewaySegments
  | NotYetClaimedSegments PlatformRawData
  | ClearClaimed

fun run_operation :: "operation \<Rightarrow> Segment \<Rightarrow> Segment" where
  "run_operation (Rebuild rawData) s = generateBaseSegments rawData s"
| "run_operation (Query q) s = snd (run_query q s)"
| "run_operation AllGatewaySegments s = snd (GetAllGatewayHostSegments s)"
| "run_operation (NotYetClaimedSegments rawData) s = snd (notYetClaimedSegments rawData s)"
| "run_operation ClearClaimed s = ClearVTapUsedVInterfaceIDs s"

text \<open>The engine after a sequence of operations on a newly constructed one.\<close>

definition engine_after :: "operation list \<Rightarrow> Segment" where
  "engine_after ops = fold run_operation ops newSegment"

text \<open>
  A list of segments returns an interface when one of its segments holds the interface's
  MAC and converted id at the same position of \<open>Mac\<close> and \<open>InterfaceId\<close>.
\<close>

definition returns :: "trident_Segment list \<Rightarrow> VInterface \<Rightarrow> bool" where
  "returns segments vif =
     (\<exists>segment \<in> set segments.
        (vif_Mac vif, uint32 (vif_ID vif)) \<in> set (zip (seg_Mac segment) (seg_InterfaceId segment)))"

text \<open>The ids of the interfaces an index holds for an entity: what a query of it visits.\<close>

definition ids_of :: "NetworkMacs \<Rightarrow> go_int set" where
  "ids_of networkMacs = ID ` set (concat (map snd networkMacs))"

definition index_ids :: "('k \<times> NetworkMacs) list \<Rightarrow> 'k \<Rightarrow> go_int set" where
  "index_ids t k = (case map_of t k of Some networkMacs \<Rightarrow> ids_of networkMacs | None \<Rightarrow> {})"

fun query_ids :: "query \<Rightarrow> Segment \<Rightarrow> go_int set" where
  "query_ids (ByLaunchServer server) s = index_ids (launchServerToSegments s) server"
| "query_ids (ByHostID hostID) s = index_ids (hostIDToSegments s) hostID"
| "query_ids (ByVMID vmID) s = index_ids (vmIDToSegments s) vmID"
| "query_ids (ByPodNodeID podNodeID) s = index_ids (podNodeIDToSegments s) podNodeID"
| "query_ids (ByVMTypeCombined server hostID) s =
     index_ids (launchServerToSegments s) server \<union> index_ids (hostIDToSegments s) hostID"

subsection \<open>Iteration in an order the run time chooses\<close>

text \<open>
  Go visits the entries of a map, and \<open>Iter\<close> the elements of a set, in an order chosen
  anew at every \<open>range\<close>. A \<open>site\<close> names one such iteration of a run: the line of segment.go
  where it starts (for the \<open>Iter\<close> inside IDToVifs.add, the line of the call of add), with
  the keys of the iterations of the loops around it. An \<open>order\<close> gives for every site and
  every number of entries the positions in the order of the visit; it is valid when these
  are the positions \<open>0, ..., n - 1\<close>, each once. \<open>visit\<close> lists the entries as visited.
  \<open>forward\<close> visits in list order and \<open>backward\<close> in the reverse order.
\<close>

datatype key = IntKey go_int | StrKey string

datatype site = Site nat "key list"

type_synonym order = "site \<Rightarrow> nat \<Rightarrow> nat list"

definition valid_order :: "order \<Rightarrow> bool" where
  "valid_order ord = (\<forall>site n. mset (ord site n) = mset [0..<n])"

definition visit :: "order \<Rightarrow> site \<Rightarrow> 'a list \<Rightarrow> 'a list" where
  "visit ord site xs = map (\<lambda>i. xs ! i) (ord site (length xs))"

definition forward :: order where
  "forward site n = [0..<n]"

definition backward :: order where
  "backward site n = rev [0..<n]"

text \<open>
  The functions of segment.go once more, with the order of every iteration over a map or
  a set as a parameter. The loops over slices (the \<open>macIDs\<close> of a network, the device
  list) keep the order of the slice, and the bodies of the loops are the ones above.
  IDToVifs.add iterates over the set it is given when the key is present, and clones it
  otherwise.
\<close>

definition IDToVifs_add_ord ::
  "order \<Rightarrow> site \<Rightarrow> go_int \<Rightarrow> VInterface list \<Rightarrow> IDToVifs \<Rightarrow> IDToVifs" where
  "IDToVifs_add_ord ord site id' vifs v =
     (case map_of v id' of
        Some cur \<Rightarrow> AList.update id' (fold mapset_Add (visit ord site vifs) cur) v
      | None \<Rightarrow> AList.update id' vifs v)"

definition getSegmentsByID_ord ::
  "order \<Rightarrow> IDToNetworkMacs \<Rightarrow> go_int \<Rightarrow> Segment \<Rightarrow> trident_Segment list \<times> Segment" where
  "getSegmentsByID_ord ord t id' s =
     (case map_of t id' of
        None \<Rightarrow> ([], s)
      | Some networkMacs \<Rightarrow>
          (case fold segment_of_network (visit ord (Site 69 []) networkMacs)
                  ([], vtapUsedVInterfaceIDs s) of
             (segments, used) \<Rightarrow> (segments, s\<lparr>vtapUsedVInterfaceIDs := used\<rparr>)))"

definition getSegmentsByServer_ord ::
  "order \<Rightarrow> ServerToNetworkMacs \<Rightarrow> string \<Rightarrow> Segment \<Rightarrow> trident_Segment list \<times> Segment" where
  "getSegmentsByServer_ord ord t server s =
     (case map_of t server of
        None \<Rightarrow> ([], s)
      | Some networkMacs \<Rightarrow>
          (case fold segment_of_network (visit ord (Site 98 []) networkMacs)
                  ([], vtapUsedVInterfaceIDs s) of
             (segments, used) \<Rightarrow> (segments, s\<lparr>vtapUsedVInterfaceIDs := used\<rparr>)))"

definition podnode_vifs_ord ::
  "order \<Rightarrow> PlatformRawData \<Rightarrow> go_int \<times> PodNode \<Rightarrow> IDToVifs \<Rightarrow> IDToVifs" where
  "podnode_vifs_ord ord rawData entry podNodeIDToAllVifs' =
     (let podnodeID = podnode_ID (snd entry);
          own = (case map_of (podNodeIDToVifs rawData) podnodeID of
                   Some vifs \<Rightarrow>
                     IDToVifs_add_ord ord (Site 191 [IntKey (fst entry)]) podnodeID vifs
                       podNodeIDToAllVifs'
                 | None \<Rightarrow> podNodeIDToAllVifs')
      in (case map_of (podNodeIDtoPodIDs rawData) podnodeID of
           Some podIDs \<Rightarrow>
             fold (\<lambda>id' acc.
                     (case map_of (podIDToVifs rawData) id' of
                        Some vifs \<Rightarrow>
                          IDToVifs_add_ord ord (Site 197 [IntKey (fst entry), IntKey id'])
                            podnodeID vifs acc
                      | None \<Rightarrow> acc))
                  (visit ord (Site 194 [IntKey (fst entry)]) podIDs) own
         | None \<Rightarrow> own))"

definition vm_podnode_vifs_ord ::
  "order \<Rightarrow> IDToVifs \<Rightarrow> go_int \<times> go_int \<Rightarrow> IDToVifs \<Rightarrow> IDToVifs" where
  "vm_podnode_vifs_ord ord podNodeIDToAllVifs' entry vmIDToPodNodeAllVifs' =
     (case entry of (podnodeID, vmID) \<Rightarrow>
        (case map_of podNodeIDToAllVifs' podnodeID of
           Some allVifs \<Rightarrow>
             IDToVifs_add_ord ord (Site 204 [IntKey podnodeID]) vmID allVifs vmIDToPodNodeAllVifs'
         | None \<Rightarrow> vmIDToPodNodeAllVifs'))"

definition convertDBInfo_ord :: "order \<Rightarrow> PlatformRawData \<Rightarrow> Segment \<Rightarrow> Segment" where
  "convertDBInfo_ord ord rawData s =
     (let podNodeIDToAllVifs' =
            fold (podnode_vifs_ord ord rawData) (visit ord (Site 188 []) (idToPodNode rawData))
              newIDToVifs;
          vmIDToPodNodeAllVifs' =
            fold (vm_podnode_vifs_ord ord podNodeIDToAllVifs')
              (visit ord (Site 202 []) (podNodeIDToVmID rawData)) newIDToVifs
      in s\<lparr>podNodeIDToAllVifs := podNodeIDToAllVifs',
            vmIDToPodNodeAllVifs := vmIDToPodNodeAllVifs'\<rparr>)"

definition add_vifs_of_ord ::
  "order \<Rightarrow> site \<Rightarrow> (go_int \<times> VInterface list) list \<Rightarrow> go_int \<Rightarrow> NetworkMacs \<Rightarrow> NetworkMacs" where
  "add_vifs_of_ord ord site m id' netWorkMacs =
     (case map_of m id' of
        Some vifs \<Rightarrow> fold NetworkMacs_add (visit ord site vifs) netWorkMacs
      | None \<Rightarrow> netWorkMacs)"

definition server_networkMacs_ord ::
  "order \<Rightarrow> PlatformRawData \<Rightarrow> Segment \<Rightarrow> string \<Rightarrow> go_int list \<Rightarrow> NetworkMacs" where
  "server_networkMacs_ord ord rawData s server vmids =
     fold (\<lambda>id' netWorkMacs.
             add_vifs_of_ord ord (Site 229 [StrKey server, IntKey id']) (vmIDToPodNodeAllVifs s) id'
               (add_vifs_of_ord ord (Site 223 [StrKey server, IntKey id']) (vmIDToVifs rawData) id'
                  netWorkMacs))
          (visit ord (Site 220 [StrKey server]) vmids) newNetworkMacs"

definition generateBaseSegmentsFromDB_ord :: "order \<Rightarrow> PlatformRawData \<Rightarrow> Segment \<Rightarrow> Segment" where
  "generateBaseSegmentsFromDB_ord ord rawData s =
     (let launchServerToSegments' =
            fold (\<lambda>(server, vmids).
                    AList.update server (server_networkMacs_ord ord rawData s server vmids))
                 (visit ord (Site 218 []) (serverToVmIDs rawData)) newServerToNetworkMacs;
          hostIDToSegments' =
            fold (\<lambda>(hostID, vifs).
                    AList.update hostID
                      (fold NetworkMacs_add (visit ord (Site 239 [IntKey hostID]) vifs)
                         newNetworkMacs))
                 (visit ord (Site 237 []) (hostIDToVifs rawData)) newIDToNetworkMacs;
          gatewayHostIDToSegments' =
            fold (\<lambda>(hostID, vifs).
                    AList.update hostID
                      (fold NetworkMacs_add (visit ord (Site 247 [IntKey hostID]) vifs)
                         newNetworkMacs))
                 (visit ord (Site 245 []) (gatewayHostIDToVifs rawData)) newIDToNetworkMacs;
          vmIDToSegments' =
            fold (\<lambda>(vmID, vifs).
                    AList.update vmID
                      (add_vifs_of_ord ord (Site 259 [IntKey vmID]) (vmIDToPodNodeAllVifs s) vmID
                         (fold NetworkMacs_add (visit ord (Site 255 [IntKey vmID]) vifs)
                            newNetworkMacs)))
                 (visit ord (Site 253 []) (vmIDToVifs rawData)) newIDToNetworkMacs;
          podNodeIDToSegments' =
            fold (\<lambda>(podNodeID, vifs).
                    AList.update podNodeID
                      (fold NetworkMacs_add (visit ord (Site 268 [IntKey podNodeID]) vifs)
                         newNetworkMacs))
                 (visit ord (Site 266 []) (podNodeIDToAllVifs s)) newIDToNetworkMacs
      in s\<lparr>launchServerToSegments := launchServerToSegments',
            hostIDToSegments := hostIDToSegments',
            gatewayHostIDToSegments := gatewayHostIDToSegments',
            vmIDToSegments := vmIDToSegments',
            podNodeIDToSegments := podNodeIDToSegments'\<rparr>)"

definition generateGatewayHostSegments_ord :: "order \<Rightarrow> Segment \<Rightarrow> Segment" where
  "generateGatewayHostSegments_ord ord s =
     s\<lparr>allGatewayHostSegments :=
         fold (\<lambda>(hostID, hostSegments).
                 fold gateway_segment (visit ord (Site 284 [IntKey hostID]) hostSegments))
              (visit ord (Site 283 []) (gatewayHostIDToSegments s)) []\<rparr>"

definition generateBaseSegments_ord :: "order \<Rightarrow> PlatformRawData \<Rightarrow> Segment \<Rightarrow> Segment" where
  "generateBaseSegments_ord ord rawData s =
     generateGatewayHostSegments_ord ord
       (generateBaseSegmentsFromDB_ord ord rawData (convertDBInfo_ord ord rawData s))"

definition GetTypeVMSegments_ord ::
  "order \<Rightarrow> string \<Rightarrow> go_int \<Rightarrow> Segment \<Rightarrow> trident_Segment list \<times> Segment" where
  "GetTypeVMSegments_ord ord launchServer hostID s =
     (let acc0 = ([], [], vtapUsedVInterfaceIDs s);
          acc1 = (case map_of (launchServerToSegments s) launchServer of
                    Some networkMacs \<Rightarrow> claim_networkMacs (visit ord (Site 346 []) networkMacs) acc0
                  | None \<Rightarrow> acc0);
          acc2 = (case map_of (hostIDToSegments s) hostID of
                    Some networkMacs \<Rightarrow> claim_networkMacs (visit ord (Site 355 []) networkMacs) acc1
                  | None \<Rightarrow> acc1)
      in (case acc2 of (macs, vifIDs, used) \<Rightarrow>
            ([\<lparr>seg_Id = uint32 1, seg_Mac = macs, seg_InterfaceId = vifIDs\<rparr>],
             s\<lparr>vtapUsedVInterfaceIDs := used\<rparr>)))"

fun run_query_ord :: "order \<Rightarrow> query \<Rightarrow> Segment \<Rightarrow> trident_Segment list \<times> Segment" where
  "run_query_ord ord (ByLaunchServer server) s =
     getSegmentsByServer_ord ord (launchServerToSegments s) server s"
| "run_query_ord ord (ByHostID hostID) s = getSegmentsByID_ord ord (hostIDToSegments s) hostID s"
| "run_query_ord ord (ByVMID vmID) s = getSegmentsByID_ord ord (vmIDToSegments s) vmID s"
| "run_query_ord ord (ByPodNodeID podNodeID) s =
     getSegmentsByID_ord ord (podNodeIDToSegments s) podNodeID s"
| "run_query_ord ord (ByVMTypeCombined server hostID) s = GetTypeVMSegments_ord ord server hostID s"

definition run_queries_ord :: "(order \<times> query) list \<Rightarrow> Segment \<Rightarrow> Segment" where
  "run_queries_ord oqs s = fold (\<lambda>(ord, q) s'. snd (run_query_ord ord q s')) oqs s"

subsection \<open>Notions used to state the results\<close>

text \<open>All entries of a NetworkMacs, network after network.\<close>

definition macIDs_of :: "NetworkMacs \<Rightarrow> MacID list" where
  "macIDs_of networkMacs = concat (map snd networkMacs)"

text \<open>The segment the per-entity queries build for one network of an entity.\<close>

definition network_segment :: "go_int \<times> MacID list \<Rightarrow> trident_Segment" where
  "network_segment entry =
     \<lparr>seg_Id = uint32 (fst entry), seg_Mac = map Mac (snd entry),
      seg_InterfaceId = map (\<lambda>macID. uint32 (ID macID)) (snd entry)\<rparr>"

text \<open>What an index holds for a key; nothing for a key it does not know.\<close>

definition found :: "('k \<times> NetworkMacs) list \<Rightarrow> 'k \<Rightarrow> NetworkMacs" where
  "found t k = (case map_of t k of Some networkMacs \<Rightarrow> networkMacs | None \<Rightarrow> [])"

text \<open>
  The entry a per-entity query resolves: what its index holds for its key. The combined
  query resolves no single entry.
\<close>

fun query_entry :: "query \<Rightarrow> Segment \<Rightarrow> NetworkMacs option" where
  "query_entry (ByLaunchServer server) s = map_of (launchServerToSegments s) server"
| "query_entry (ByHostID hostID) s = map_of (hostIDToSegments s) hostID"
| "query_entry (ByVMID vmID) s = map_of (vmIDToSegments s) vmID"
| "query_entry (ByPodNodeID podNodeID) s = map_of (podNodeIDToSegments s) podNodeID"
| "query_entry (ByVMTypeCombined server hostID) s = None"

text \<open>The interfaces of the device list whose id is not in a set of claimed ids.\<close>

definition unclaimed :: "PlatformRawData \<Rightarrow> go_int set \<Rightarrow> VInterface list" where
  "unclaimed rawData used = filter (\<lambda>vif. vif_ID vif \<notin> used) (deviceVifs rawData)"

text \<open>The single segment with the fixed id 1 for a list of interfaces.\<close>

definition catch_all :: "VInterface list \<Rightarrow> trident_Segment" where
  "catch_all vifs =
     \<lparr>seg_Id = 1, seg_Mac = map vif_Mac vifs,
      seg_InterfaceId = map (\<lambda>vif. uint32 (vif_ID vif)) vifs\<rparr>"

text \<open>The segment of the gateway flattening for one network of one gateway host.\<close>

definition gateway_view :: "go_int \<times> MacID list \<Rightarrow> trident_Segment" where
  "gateway_view entry =
     \<lparr>seg_Id = 1, seg_Mac = map Mac (snd entry),
      seg_InterfaceId = map (\<lambda>macID. uint32 (ID macID)) (snd entry)\<rparr>"

text \<open>The interfaces a map from keys to interface sets holds under a key.\<close>

definition vifs_at :: "('k \<times> VInterface list) list \<Rightarrow> 'k \<Rightarrow> VInterface set" where
  "vifs_at m k = (case map_of m k of Some vifs \<Rightarrow> set vifs | None \<Rightarrow> {})"

text \<open>
  The interfaces attached to a pod-node: its own and those of its pods. The closure of a
  pod-node is that set when the pod-node is one of \<open>idToPodNode\<close>, and empty otherwise.
  The closure of a VM is the union of the closures of the pod-nodes that
  \<open>podNodeIDToVmID\<close> maps to it.
\<close>

definition podnode_own :: "PlatformRawData \<Rightarrow> go_int \<Rightarrow> VInterface set" where
  "podnode_own rawData podnodeID =
     vifs_at (podNodeIDToVifs rawData) podnodeID \<union>
     (\<Union>podID \<in> (case map_of (podNodeIDtoPodIDs rawData) podnodeID of
                      Some podIDs \<Rightarrow> set podIDs | None \<Rightarrow> {}).
        vifs_at (podIDToVifs rawData) podID)"

definition podnode_closure :: "PlatformRawData \<Rightarrow> go_int \<Rightarrow> VInterface set" where
  "podnode_closure rawData podnodeID =
     (if podnodeID \<in> podnode_ID ` snd ` set (idToPodNode rawData)
      then podnode_own rawData podnodeID
      else {})"

definition vm_closure :: "PlatformRawData \<Rightarrow> go_int \<Rightarrow> VInterface set" where
  "vm_closure rawData vmID =
     (\<Union>podnodeID \<in> fst ` set (filter (\<lambda>entry. snd entry = vmID) (podNodeIDToVmID rawData)).
        podnode_closure rawData podnodeID)"

text \<open>Two interfaces a segment cannot tell apart: same MAC, same converted id.\<close>

definition same_on_wire :: "VInterface \<Rightarrow> VInterface \<Rightarrow> bool" where
  "same_on_wire w v = (vif_Mac w = vif_Mac v \<and> uint32 (vif_ID w) = uint32 (vif_ID v))"

text \<open>
  Notions for results that are the same up to order. Every list that stands for a set
  holds each element once (\<open>wf_sets\<close> for the snapshot, \<open>sets_distinct\<close> for one map).
  \<open>members\<close> is the multiset a map holds under a key; \<open>entries\<close> the multiset of entries of
  one network of an index entry; \<open>indexed\<close> what NetworkMacs.add files under a network for
  a multiset of interfaces; \<open>groups\<close> an index entry as the multiset of its networks, each
  with the multiset of its entries. A segment is its id with the multiset of its pairs of
  MAC and interface id (\<open>seg_content\<close>), and \<open>content\<close> is the multiset of the segments of a
  list.
\<close>

definition wf_sets :: "PlatformRawData \<Rightarrow> bool" where
  "wf_sets rawData =
     ((\<forall>podIDs \<in> snd ` set (podNodeIDtoPodIDs rawData). distinct podIDs) \<and>
      (\<forall>vifs \<in> snd ` set (podIDToVifs rawData). distinct vifs) \<and>
      (\<forall>vifs \<in> snd ` set (podNodeIDToVifs rawData). distinct vifs) \<and>
      (\<forall>vmids \<in> snd ` set (serverToVmIDs rawData). distinct vmids) \<and>
      (\<forall>vifs \<in> snd ` set (vmIDToVifs rawData). distinct vifs) \<and>
      (\<forall>vifs \<in> snd ` set (hostIDToVifs rawData). distinct vifs) \<and>
      (\<forall>vifs \<in> snd ` set (gatewayHostIDToVifs rawData). distinct vifs))"

definition entries :: "NetworkMacs \<Rightarrow> go_int \<Rightarrow> MacID multiset" where
  "entries networkMacs networkID = mset (NetworkMacs_get networkMacs networkID)"

definition seg_content :: "trident_Segment \<Rightarrow> uint32 \<times> (string \<times> uint32) multiset" where
  "seg_content segment = (seg_Id segment, mset (zip (seg_Mac segment) (seg_InterfaceId segment)))"

definition content :: "trident_Segment list \<Rightarrow> (uint32 \<times> (string \<times> uint32) multiset) multiset" where
  "content segments = mset (map seg_content segments)"

definition indexed :: "go_int \<Rightarrow> VInterface multiset \<Rightarrow> MacID multiset" where
  "indexed networkID vifs =
     image_mset newMacID
       (filter_mset (\<lambda>v. vif_Mac v \<noteq> [] \<and> vif_NetworkID v = networkID) vifs)"

definition groups :: "NetworkMacs \<Rightarrow> (go_int \<times> MacID multiset) multiset" where
  "groups networkMacs = image_mset (\<lambda>entry. (fst entry, mset (snd entry))) (mset networkMacs)"

definition on_wire :: "MacID \<Rightarrow> string \<times> uint32" where
  "on_wire macID = (Mac macID, uint32 (ID macID))"

definition sets_distinct :: "('k \<times> 'a list) list \<Rightarrow> bool" where
  "sets_distinct m = (\<forall>xs \<in> snd ` set m. distinct xs)"

definition members :: "('k \<times> 'a list) list \<Rightarrow> 'k \<Rightarrow> 'a multiset" where
  "members m k = (case map_of m k of Some xs \<Rightarrow> mset xs | None \<Rightarrow> {#})"

subsection \<open>Invariants\<close>

text \<open>Every cached segment carries the fixed id 1.\<close>

definition fixed_ids :: "Segment \<Rightarrow> bool" where
  "fixed_ids s =
     ((\<forall>segment \<in> set (allGatewayHostSegments s). seg_Id segment = 1) \<and>
      (\<forall>segment \<in> set (notVtapUsedSegments s). seg_Id segment = 1))"

text \<open>
  An entry of an index is well-formed: one list per network id, no list empty, no MAC
  empty. An index is well-formed when its entries are; the engine, when its five indices
  are and no segment of the cached gateway list holds an empty MAC.
\<close>

definition networkMacs_ok :: "NetworkMacs \<Rightarrow> bool" where
  "networkMacs_ok networkMacs =
     (distinct (map fst networkMacs) \<and>
      (\<forall>macIDs \<in> snd ` set networkMacs. macIDs \<noteq> []) \<and>
      (\<forall>macID \<in> set (macIDs_of networkMacs). Mac macID \<noteq> []))"

definition index_ok :: "('k \<times> NetworkMacs) list \<Rightarrow> bool" where
  "index_ok t = (\<forall>networkMacs \<in> snd ` set t. networkMacs_ok networkMacs)"

definition engine_ok :: "Segment \<Rightarrow> bool" where
  "engine_ok s =
     (index_ok (launchServerToSegments s) \<and>
      index_ok (hostIDToSegments s) \<and>
      index_ok (gatewayHostIDToSegments s) \<and>
      index_ok (vmIDToSegments s) \<and>
      index_ok (podNodeIDToSegments s) \<and>
      (\<forall>segment \<in> set (allGatewayHostSegments s). [] \<notin> set (seg_Mac segment)))"

subsection \<open>Concrete snapshots\<close>

text \<open>
  The scenario of the specification: host 1 with interface a1 (id 1, network 10); VM 11 on
  launch server H1 with a2 (id 2, network 10); pod-node 21, owned by VM 11, with a3 (id 3,
  network 20); pod 31 on pod-node 21 with a4 (id 4, network 20). Added to it: a gateway
  host 41 with a5 (id 5, network 30), VM 12 on the same launch server with a6 (id 6,
  network 10), and pod-node 22, which no VM owns, with a7 (id 7, network 20).
\<close>

definition vif :: "string \<Rightarrow> go_int \<Rightarrow> go_int \<Rightarrow> VInterface" where
  "vif mac id' networkID = \<lparr>vif_Mac = mac, vif_ID = id', vif_NetworkID = networkID\<rparr>"

definition scenario :: PlatformRawData where
  "scenario =
     \<lparr>podNodeIDtoPodIDs = [(21, [31])],
      podIDToVifs = [(31, [vif ''a4'' 4 20])],
      podNodeIDToVmID = [(21, 11)],
      podNodeIDToVifs = [(21, [vif ''a3'' 3 20]), (22, [vif ''a7'' 7 20])],
      idToPodNode = [(21, \<lparr>podnode_ID = 21\<rparr>), (22, \<lparr>podnode_ID = 22\<rparr>)],
      serverToVmIDs = [(''H1'', [11, 12])],
      vmIDToVifs = [(11, [vif ''a2'' 2 10]), (12, [vif ''a6'' 6 10])],
      hostIDToVifs = [(1, [vif ''a1'' 1 10])],
      gatewayHostIDToVifs = [(41, [vif ''a5'' 5 30])],
      deviceVifs = [vif ''a1'' 1 10, vif ''a2'' 2 10, vif ''a3'' 3 20, vif ''a4'' 4 20,
                    vif ''a5'' 5 30, vif ''a6'' 6 10, vif ''a7'' 7 20]\<rparr>"

definition scenario_engine :: Segment where
  "scenario_engine = ClearVTapUsedVInterfaceIDs (generateBaseSegments scenario newSegment)"

text \<open>A host with two interfaces, and a device list of three.\<close>

definition host_snapshot :: PlatformRawData where
  "host_snapshot =
     \<lparr>podNodeIDtoPodIDs = [], podIDToVifs = [], podNodeIDToVmID = [], podNodeIDToVifs = [],
      idToPodNode = [], serverToVmIDs = [], vmIDToVifs = [],
      hostIDToVifs = [(1, [vif ''a1'' 1 10, vif ''a2'' 2 20])],
      gatewayHostIDToVifs = [],
      deviceVifs = [vif ''a1'' 1 10, vif ''a2'' 2 20, vif ''a3'' 3 10]\<rparr>"

text \<open>A host with an interface whose MAC is empty.\<close>

definition emptymac_snapshot :: PlatformRawData where
  "emptymac_snapshot =
     \<lparr>podNodeIDtoPodIDs = [], podIDToVifs = [], podNodeIDToVmID = [], podNodeIDToVifs = [],
      idToPodNode = [], serverToVmIDs = [], vmIDToVifs = [],
      hostIDToVifs = [(1, [vif ''a1'' 1 10, vif [] 7 10])],
      gatewayHostIDToVifs = [],
      deviceVifs = [vif ''a1'' 1 10, vif [] 7 10]\<rparr>"

text \<open>A host with interfaces in the networks 5 and 2^32 + 5.\<close>

definition wide_snapshot :: PlatformRawData where
  "wide_snapshot =
     \<lparr>podNodeIDtoPodIDs = [], podIDToVifs = [], podNodeIDToVmID = [], podNodeIDToVifs = [],
      idToPodNode = [], serverToVmIDs = [], vmIDToVifs = [],
      hostIDToVifs = [(1, [vif ''a1'' 1 5, vif ''a2'' 2 4294967301])],
      gatewayHostIDToVifs = [],
      deviceVifs = [vif ''a1'' 1 5, vif ''a2'' 2 4294967301]\<rparr>"

text \<open>
  A VM that owns a pod-node and has no interface of its own (no entry in \<open>vmIDToVifs\<close>).
\<close>

definition bare_vm_snapshot :: PlatformRawData where
  "bare_vm_snapshot =
     \<lparr>podNodeIDtoPodIDs = [(21, [31])],
      podIDToVifs = [(31, [vif ''a4'' 4 20])],
      podNodeIDToVmID = [(21, 11)],
      podNodeIDToVifs = [(21, [vif ''a3'' 3 20])],
      idToPodNode = [(21, \<lparr>podnode_ID = 21\<rparr>)],
      serverToVmIDs = [(''H1'', [11])],
      vmIDToVifs = [],
      hostIDToVifs = [],
      gatewayHostIDToVifs = [],
      deviceVifs = [vif ''a3'' 3 20, vif ''a4'' 4 20]\<rparr>"

section \<open>The loops in closed form\<close>

subsection \<open>Resolving an entity\<close>

lemma uint32_1: "uint32 1 = 1"
  by (simp add: uint32_def)

lemma ids_of_Nil: "ids_of [] = {}"
  by (simp add: ids_of_def)

lemma ids_of_Cons: "ids_of ((networkID, macIDs) # networkMacs) = ID ` set macIDs \<union> ids_of networkMacs"
  by (simp add: ids_of_def image_Un)

lemma fold_claim_macID:
  "fold claim_macID macIDs (macs, vifIDs, used) =
     (macs @ map Mac macIDs, vifIDs @ map (\<lambda>macID. uint32 (ID macID)) macIDs, used \<union> ID ` set macIDs)"
  by (induction macIDs arbitrary: macs vifIDs used) (simp_all add: claim_macID_def)

lemma segment_of_network_eq:
  "segment_of_network (networkID, macIDs) (segments, used) =
     (segments @ [network_segment (networkID, macIDs)], used \<union> ID ` set macIDs)"
  by (simp add: segment_of_network_def fold_claim_macID network_segment_def)

lemma fold_segment_of_network:
  "fold segment_of_network networkMacs (segments, used) =
     (segments @ map network_segment networkMacs, used \<union> ids_of networkMacs)"
proof (induction networkMacs arbitrary: segments used)
  case Nil
  show ?case by (simp add: ids_of_Nil)
next
  case (Cons entry networkMacs)
  obtain networkID macIDs where entry: "entry = (networkID, macIDs)"
    by (cases entry)
  show ?case
    unfolding entry
    by (simp add: segment_of_network_eq Cons.IH ids_of_Cons Un_assoc)
qed

lemma getSegmentsByID_eq:
  "getSegmentsByID t k s =
     (case map_of t k of
        None \<Rightarrow> ([], s)
      | Some networkMacs \<Rightarrow>
          (map network_segment networkMacs,
           s\<lparr>vtapUsedVInterfaceIDs := vtapUsedVInterfaceIDs s \<union> ids_of networkMacs\<rparr>))"
  by (simp add: getSegmentsByID_def fold_segment_of_network split: option.split)

lemma getSegmentsByServer_eq:
  "getSegmentsByServer t k s =
     (case map_of t k of
        None \<Rightarrow> ([], s)
      | Some networkMacs \<Rightarrow>
          (map network_segment networkMacs,
           s\<lparr>vtapUsedVInterfaceIDs := vtapUsedVInterfaceIDs s \<union> ids_of networkMacs\<rparr>))"
  by (simp add: getSegmentsByServer_def fold_segment_of_network split: option.split)

lemma claim_networkMacs_eq:
  "claim_networkMacs networkMacs (macs, vifIDs, used) =
     (macs @ map Mac (macIDs_of networkMacs),
      vifIDs @ map (\<lambda>macID. uint32 (ID macID)) (macIDs_of networkMacs),
      used \<union> ids_of networkMacs)"
proof (induction networkMacs arbitrary: macs vifIDs used)
  case Nil
  show ?case by (simp add: claim_networkMacs_def macIDs_of_def ids_of_Nil)
next
  case (Cons entry networkMacs)
  obtain networkID macIDs where entry: "entry = (networkID, macIDs)"
    by (cases entry)
  have step: "claim_networkMacs ((networkID, macIDs) # networkMacs) (macs, vifIDs, used) =
      claim_networkMacs networkMacs (fold claim_macID macIDs (macs, vifIDs, used))"
    by (simp add: claim_networkMacs_def)
  show ?case
    unfolding entry step fold_claim_macID Cons.IH
    by (simp add: macIDs_of_def ids_of_Cons Un_assoc)
qed

lemma index_ids_found: "index_ids t k = ids_of (found t k)"
  by (simp add: index_ids_def found_def ids_of_Nil split: option.split)

lemma GetTypeVMSegments_eq:
  "GetTypeVMSegments launchServer hostID s =
     ([\<lparr>seg_Id = 1,
        seg_Mac = map Mac (macIDs_of (found (launchServerToSegments s) launchServer)
                           @ macIDs_of (found (hostIDToSegments s) hostID)),
        seg_InterfaceId = map (\<lambda>macID. uint32 (ID macID))
                            (macIDs_of (found (launchServerToSegments s) launchServer)
                             @ macIDs_of (found (hostIDToSegments s) hostID))\<rparr>],
      s\<lparr>vtapUsedVInterfaceIDs :=
          vtapUsedVInterfaceIDs s \<union>
          (index_ids (launchServerToSegments s) launchServer \<union> index_ids (hostIDToSegments s) hostID)\<rparr>)"
  by (simp add: GetTypeVMSegments_def claim_networkMacs_eq found_def index_ids_def uint32_1
      macIDs_of_def ids_of_Nil Un_assoc split: option.split)

lemma run_query_state:
  "snd (run_query q s) = s\<lparr>vtapUsedVInterfaceIDs := vtapUsedVInterfaceIDs s \<union> query_ids q s\<rparr>"
  by (cases q)
    (simp_all add: GetLaunchServerSegments_def GetHostIDSegments_def GetVMIDSegments_def
      GetPodNodeSegments_def getSegmentsByID_eq getSegmentsByServer_eq GetTypeVMSegments_eq
      index_ids_def split: option.split)

lemma query_ids_used [simp]:
  "query_ids q (s\<lparr>vtapUsedVInterfaceIDs := used\<rparr>) = query_ids q s"
  by (cases q) simp_all

lemma run_queries_state:
  "run_queries qs s =
     s\<lparr>vtapUsedVInterfaceIDs := vtapUsedVInterfaceIDs s \<union> (\<Union>q \<in> set qs. query_ids q s)\<rparr>"
proof (induction qs arbitrary: s)
  case Nil
  show ?case by (simp add: run_queries_def)
next
  case (Cons q qs)
  have "run_queries (q # qs) s = run_queries qs (snd (run_query q s))"
    by (simp add: run_queries_def)
  then show ?case
    by (simp add: Cons.IH run_query_state Un_assoc)
qed

subsection \<open>The catch-all\<close>

lemma fold_unclaimed:
  "fold (\<lambda>vif (macs, vifIDs).
           if vif_ID vif \<notin> used
           then (macs @ [vif_Mac vif], vifIDs @ [uint32 (vif_ID vif)])
           else (macs, vifIDs)) vifs (macs, vifIDs) =
     (macs @ map vif_Mac (filter (\<lambda>vif. vif_ID vif \<notin> used) vifs),
      vifIDs @ map (\<lambda>vif. uint32 (vif_ID vif)) (filter (\<lambda>vif. vif_ID vif \<notin> used) vifs))"
  by (induction vifs arbitrary: macs vifIDs) simp_all

lemma GenerateNoVTapUsedSegments_eq:
  "GenerateNoVTapUsedSegments rawData s =
     s\<lparr>notVtapUsedSegments :=
         (if unclaimed rawData (vtapUsedVInterfaceIDs s) = [] then []
          else [catch_all (unclaimed rawData (vtapUsedVInterfaceIDs s))])\<rparr>"
  by (simp add: GenerateNoVTapUsedSegments_def fold_unclaimed unclaimed_def catch_all_def uint32_1)

lemma notYetClaimedSegments_fst:
  "fst (notYetClaimedSegments rawData s) =
     (if unclaimed rawData (vtapUsedVInterfaceIDs s) = [] then []
      else [catch_all (unclaimed rawData (vtapUsedVInterfaceIDs s))])"
  by (simp add: notYetClaimedSegments_def GetNotVtapUsedSegments_def GenerateNoVTapUsedSegments_eq)

lemma notYetClaimedSegments_used:
  "vtapUsedVInterfaceIDs (snd (notYetClaimedSegments rawData s)) = vtapUsedVInterfaceIDs s"
  by (simp add: notYetClaimedSegments_def GetNotVtapUsedSegments_def GenerateNoVTapUsedSegments_eq)

lemma returns_catch_all:
  "returns [catch_all vifs] v \<longleftrightarrow>
     (\<exists>w \<in> set vifs. vif_Mac w = vif_Mac v \<and> uint32 (vif_ID w) = uint32 (vif_ID v))"
  by (simp add: returns_def catch_all_def zip_map_map zip_same_conv_map image_iff) metis

lemma returns_unclaimed:
  "v \<in> set (deviceVifs rawData) \<Longrightarrow> vif_ID v \<notin> vtapUsedVInterfaceIDs s \<Longrightarrow>
     returns (fst (notYetClaimedSegments rawData s)) v"
proof -
  assume "v \<in> set (deviceVifs rawData)" and "vif_ID v \<notin> vtapUsedVInterfaceIDs s"
  then have mem: "v \<in> set (unclaimed rawData (vtapUsedVInterfaceIDs s))"
    by (simp add: unclaimed_def)
  then have "unclaimed rawData (vtapUsedVInterfaceIDs s) \<noteq> []"
    by auto
  with mem show ?thesis
    by (auto simp add: notYetClaimedSegments_fst returns_catch_all)
qed

subsection \<open>Operations that leave the claimed set alone\<close>

lemma generateGatewayHostSegments_used:
  "vtapUsedVInterfaceIDs (generateGatewayHostSegments s) = vtapUsedVInterfaceIDs s"
  by (simp add: generateGatewayHostSegments_def)

lemma generateBaseSegments_used:
  "vtapUsedVInterfaceIDs (generateBaseSegments rawData s) = vtapUsedVInterfaceIDs s"
  by (simp add: generateBaseSegments_def generateGatewayHostSegments_def
      generateBaseSegmentsFromDB_def convertDBInfo_def Let_def)

lemma run_operation_used:
  "op \<noteq> ClearClaimed \<Longrightarrow>
     vtapUsedVInterfaceIDs s \<subseteq> vtapUsedVInterfaceIDs (run_operation op s)"
  by (cases op)
    (simp_all add: generateBaseSegments_used run_query_state GetAllGatewayHostSegments_def
      notYetClaimedSegments_used)

subsection \<open>The gateway flattening\<close>

lemma fold_collect:
  "fold (\<lambda>macID (macs, vifIDs). (macs @ [Mac macID], vifIDs @ [uint32 (ID macID)])) macIDs (macs, vifIDs) =
     (macs @ map Mac macIDs, vifIDs @ map (\<lambda>macID. uint32 (ID macID)) macIDs)"
  by (induction macIDs arbitrary: macs vifIDs) simp_all

lemma gateway_segment_eq:
  "gateway_segment entry segments = segments @ [gateway_view entry]"
  by (cases entry) (simp add: gateway_segment_def fold_collect gateway_view_def uint32_1)

lemma fold_gateway_segment:
  "fold gateway_segment networkMacs segments = segments @ map gateway_view networkMacs"
  by (induction networkMacs arbitrary: segments) (simp_all add: gateway_segment_eq)

lemma fold_gateway_hosts:
  "fold (\<lambda>(hostID, hostSegments). fold gateway_segment hostSegments) t segments =
     segments @ map gateway_view (concat (map snd t))"
  by (induction t arbitrary: segments) (auto simp add: fold_gateway_segment)

lemma generateGatewayHostSegments_eq:
  "generateGatewayHostSegments s =
     s\<lparr>allGatewayHostSegments := map gateway_view (concat (map snd (gatewayHostIDToSegments s)))\<rparr>"
  by (simp add: generateGatewayHostSegments_def fold_gateway_hosts)

section \<open>Properties of the build and of the engine\<close>

subsection \<open>The build depends on the snapshot alone\<close>

lemma generateBaseSegments_state:
  "generateBaseSegments rawData s =
     (generateBaseSegments rawData newSegment)
       \<lparr>vtapUsedVInterfaceIDs := vtapUsedVInterfaceIDs s,
        notVtapUsedSegments := notVtapUsedSegments s,
        bmDedicatedRemoteSegments := bmDedicatedRemoteSegments s\<rparr>"
  by (cases s)
    (simp add: generateBaseSegments_def generateGatewayHostSegments_def
      generateBaseSegmentsFromDB_def convertDBInfo_def Let_def newSegment_def
      server_networkMacs_def)

lemma generateBaseSegments_twice:
  "generateBaseSegments rawData (generateBaseSegments rawData s) = generateBaseSegments rawData s"
  by (simp add: generateBaseSegments_def generateGatewayHostSegments_def
      generateBaseSegmentsFromDB_def convertDBInfo_def Let_def server_networkMacs_def)

subsection \<open>Invariants: every cached segment has id 1\<close>

lemma engine_after_induct:
  assumes "P newSegment" and "\<And>op s. P s \<Longrightarrow> P (run_operation op s)"
  shows "P (engine_after ops)"
proof -
  have "P (fold run_operation ops s)" if "P s" for s
    using that by (induction ops arbitrary: s) (simp_all add: assms(2))
  then show ?thesis
    by (simp add: engine_after_def assms(1))
qed

lemma fixed_ids_step: "fixed_ids s \<Longrightarrow> fixed_ids (run_operation op s)"
proof (cases op)
  case (Rebuild rawData)
  assume "fixed_ids s"
  then show ?thesis
    unfolding Rebuild
    by (simp add: fixed_ids_def generateBaseSegments_def generateGatewayHostSegments_eq
        generateBaseSegmentsFromDB_def convertDBInfo_def Let_def gateway_view_def)
next
  case (Query q)
  assume "fixed_ids s"
  then show ?thesis
    by (simp add: Query fixed_ids_def run_query_state)
next
  case AllGatewaySegments
  assume "fixed_ids s"
  then show ?thesis
    by (simp add: AllGatewaySegments GetAllGatewayHostSegments_def)
next
  case (NotYetClaimedSegments rawData)
  assume "fixed_ids s"
  then show ?thesis
    by (simp add: NotYetClaimedSegments fixed_ids_def notYetClaimedSegments_def
        GetNotVtapUsedSegments_def GenerateNoVTapUsedSegments_eq catch_all_def)
next
  case ClearClaimed
  assume "fixed_ids s"
  then show ?thesis
    by (simp add: ClearClaimed fixed_ids_def ClearVTapUsedVInterfaceIDs_def)
qed

lemma fixed_ids_engine_after: "fixed_ids (engine_after ops)"
proof (rule engine_after_induct)
  show "fixed_ids newSegment"
    by (simp add: fixed_ids_def newSegment_def)
  show "fixed_ids (run_operation op s)" if "fixed_ids s" for op s
    using that by (rule fixed_ids_step)
qed

subsection \<open>NetworkMacs.add keeps an entry well-formed\<close>

lemma update_absent: "map_of al k = None \<Longrightarrow> AList.update k v al = al @ [(k, v)]"
  by (induction al) (auto split: if_splits)

lemma update_present_snd:
  "map_of al k = Some cur \<Longrightarrow>
     set (concat (map snd (AList.update k (cur @ xs) al))) = set (concat (map snd al)) \<union> set xs"
  by (induction al) (auto split: if_splits)

lemma update_values: "snd ` set (AList.update k v al) \<subseteq> insert v (snd ` set al)"
  by (induction al) (auto split: if_splits)

lemma macIDs_of_add:
  "set (macIDs_of (NetworkMacs_add v n)) =
     set (macIDs_of n) \<union> (if vif_Mac v = [] then {} else {newMacID v})"
proof (cases "vif_Mac v = []")
  case True
  then show ?thesis by (simp add: NetworkMacs_add_def)
next
  case False
  show ?thesis
  proof (cases "map_of n (vif_NetworkID v)")
    case None
    with False show ?thesis
      by (simp add: NetworkMacs_add_def macIDs_of_def update_absent)
  next
    case (Some cur)
    from update_present_snd [OF Some, of "[newMacID v]"] False Some show ?thesis
      by (simp add: NetworkMacs_add_def macIDs_of_def)
  qed
qed

lemma macIDs_of_fold_add:
  "set (macIDs_of (fold NetworkMacs_add vs n)) =
     set (macIDs_of n) \<union> newMacID ` {v \<in> set vs. vif_Mac v \<noteq> []}"
  by (induction vs arbitrary: n) (auto simp add: macIDs_of_add)

lemma networkMacs_ok_add: "networkMacs_ok n \<Longrightarrow> networkMacs_ok (NetworkMacs_add v n)"
proof (cases "vif_Mac v = []")
  case True
  assume "networkMacs_ok n"
  with True show ?thesis by (simp add: NetworkMacs_add_def)
next
  case False
  assume ok: "networkMacs_ok n"
  have macs: "\<forall>macID \<in> set (macIDs_of (NetworkMacs_add v n)). Mac macID \<noteq> []"
    using ok False by (auto simp add: macIDs_of_add networkMacs_ok_def newMacID_def)
  have keys: "distinct (map fst (NetworkMacs_add v n))"
    using ok False
    by (simp add: NetworkMacs_add_def networkMacs_ok_def distinct_update Let_def split: option.split)
  have vals: "\<forall>macIDs \<in> snd ` set (NetworkMacs_add v n). macIDs \<noteq> []"
  proof (cases "map_of n (vif_NetworkID v)")
    case None
    with ok False show ?thesis
      by (auto simp add: NetworkMacs_add_def networkMacs_ok_def update_absent)
  next
    case (Some cur)
    have sub: "snd ` set (AList.update (vif_NetworkID v) (cur @ [newMacID v]) n)
        \<subseteq> insert (cur @ [newMacID v]) (snd ` set n)"
      by (rule update_values)
    have old: "\<forall>macIDs \<in> snd ` set n. macIDs \<noteq> []"
      using ok by (simp add: networkMacs_ok_def)
    have "\<forall>macIDs \<in> insert (cur @ [newMacID v]) (snd ` set n). macIDs \<noteq> []"
      using old by simp
    with sub have "\<forall>macIDs \<in> snd ` set (AList.update (vif_NetworkID v) (cur @ [newMacID v]) n).
        macIDs \<noteq> []"
      by blast
    with False Some show ?thesis
      by (simp add: NetworkMacs_add_def)
  qed
  from macs keys vals show ?thesis
    by (simp add: networkMacs_ok_def)
qed

lemma networkMacs_ok_fold_add: "networkMacs_ok n \<Longrightarrow> networkMacs_ok (fold NetworkMacs_add vs n)"
  by (induction vs arbitrary: n) (simp_all add: networkMacs_ok_add)

lemma networkMacs_ok_new: "networkMacs_ok newNetworkMacs"
  by (simp add: networkMacs_ok_def newNetworkMacs_def macIDs_of_def)

lemma networkMacs_ok_add_vifs_of: "networkMacs_ok n \<Longrightarrow> networkMacs_ok (add_vifs_of m k n)"
  by (simp add: add_vifs_of_def networkMacs_ok_fold_add split: option.split)

lemma networkMacs_ok_server: "networkMacs_ok (server_networkMacs rawData s vmids)"
proof -
  have "networkMacs_ok (fold (\<lambda>id' netWorkMacs.
             add_vifs_of (vmIDToPodNodeAllVifs s) id' (add_vifs_of (vmIDToVifs rawData) id' netWorkMacs))
          vmids n)" if "networkMacs_ok n" for n
    using that by (induction vmids arbitrary: n) (simp_all add: networkMacs_ok_add_vifs_of)
  then show ?thesis
    by (simp add: server_networkMacs_def networkMacs_ok_new)
qed

subsection \<open>Building an index\<close>

lemma index_ok_update: "index_ok t \<Longrightarrow> networkMacs_ok n \<Longrightarrow> index_ok (AList.update k n t)"
  using update_values [of k n t] unfolding index_ok_def by blast

lemma index_ok_fold:
  assumes "\<And>k v. networkMacs_ok (f k v)" and "index_ok acc"
  shows "index_ok (fold (\<lambda>(k, v). AList.update k (f k v)) xs acc)"
  using assms(2)
proof (induction xs arbitrary: acc)
  case Nil
  then show ?case by simp
next
  case (Cons x xs)
  obtain k v where x: "x = (k, v)" by (cases x)
  show ?case
    unfolding x using Cons.prems
    by (simp add: Cons.IH index_ok_update assms(1))
qed

lemma index_ok_Nil: "index_ok []"
  by (simp add: index_ok_def)

lemma distinct_fold_update:
  "distinct (map fst acc) \<Longrightarrow> distinct (map fst (fold (\<lambda>(k, v). AList.update k (f k v)) xs acc))"
proof (induction xs arbitrary: acc)
  case Nil
  then show ?case by simp
next
  case (Cons x xs)
  obtain k v where x: "x = (k, v)" by (cases x)
  show ?case
    unfolding x using Cons.prems
    by (simp add: Cons.IH distinct_update)
qed

lemma map_of_fold_update:
  "distinct (map fst xs) \<Longrightarrow>
     map_of (fold (\<lambda>(k, v). AList.update k (f k v)) xs acc) k =
       (case map_of xs k of Some v \<Rightarrow> Some (f k v) | None \<Rightarrow> map_of acc k)"
proof (induction xs arbitrary: acc)
  case Nil
  then show ?case by simp
next
  case (Cons x xs)
  obtain k' v' where x: "x = (k', v')" by (cases x)
  from Cons.prems have d: "distinct (map fst xs)" and notin: "k' \<notin> fst ` set xs"
    by (simp_all add: x)
  from notin have none: "map_of xs k' = None"
    by (simp add: map_of_eq_None_iff)
  show ?case
    unfolding x using none
    by (simp add: Cons.IH [OF d] update_conv' split: option.split)
qed

lemma engine_ok_build: "engine_ok (generateBaseSegments rawData s)"
proof -
  let ?c = "convertDBInfo rawData s"
  let ?b = "generateBaseSegmentsFromDB rawData ?c"
  have new: "networkMacs_ok (fold NetworkMacs_add vifs newNetworkMacs)" for vifs
    by (simp add: networkMacs_ok_fold_add networkMacs_ok_new)
  have i1: "index_ok (launchServerToSegments ?b)"
    by (simp add: generateBaseSegmentsFromDB_def Let_def newServerToNetworkMacs_def
        index_ok_fold networkMacs_ok_server index_ok_Nil)
  have i2: "index_ok (hostIDToSegments ?b)"
    by (simp add: generateBaseSegmentsFromDB_def Let_def newIDToNetworkMacs_def
        index_ok_fold new index_ok_Nil)
  have i3: "index_ok (gatewayHostIDToSegments ?b)"
    by (simp add: generateBaseSegmentsFromDB_def Let_def newIDToNetworkMacs_def
        index_ok_fold new index_ok_Nil)
  have i4: "index_ok (vmIDToSegments ?b)"
    by (simp add: generateBaseSegmentsFromDB_def Let_def newIDToNetworkMacs_def
        index_ok_fold new networkMacs_ok_add_vifs_of index_ok_Nil)
  have i5: "index_ok (podNodeIDToSegments ?b)"
    by (simp add: generateBaseSegmentsFromDB_def Let_def newIDToNetworkMacs_def
        index_ok_fold new index_ok_Nil)
  have gw: "\<forall>segment \<in> set (map gateway_view (concat (map snd (gatewayHostIDToSegments ?b)))).
      [] \<notin> set (seg_Mac segment)"
    using i3 by (fastforce simp add: index_ok_def networkMacs_ok_def gateway_view_def macIDs_of_def)
  from i1 i2 i3 i4 i5 gw show ?thesis
    by (simp add: engine_ok_def generateBaseSegments_def generateGatewayHostSegments_eq)
qed

lemma engine_ok_step: "engine_ok s \<Longrightarrow> engine_ok (run_operation op s)"
proof (cases op)
  case (Rebuild rawData)
  then show ?thesis by (simp add: engine_ok_build)
next
  case (Query q)
  assume "engine_ok s"
  then show ?thesis by (simp add: Query engine_ok_def run_query_state)
next
  case AllGatewaySegments
  assume "engine_ok s"
  then show ?thesis by (simp add: AllGatewaySegments GetAllGatewayHostSegments_def)
next
  case (NotYetClaimedSegments rawData)
  assume "engine_ok s"
  then show ?thesis
    by (simp add: NotYetClaimedSegments engine_ok_def notYetClaimedSegments_def
        GetNotVtapUsedSegments_def GenerateNoVTapUsedSegments_eq)
next
  case ClearClaimed
  assume "engine_ok s"
  then show ?thesis by (simp add: ClearClaimed engine_ok_def ClearVTapUsedVInterfaceIDs_def)
qed

lemma engine_ok_engine_after: "engine_ok (engine_after ops)"
proof (rule engine_after_induct)
  show "engine_ok newSegment"
    by (simp add: engine_ok_def newSegment_def index_ok_def newServerToNetworkMacs_def
        newIDToNetworkMacs_def)
  show "engine_ok (run_operation op s)" if "engine_ok s" for op s
    using that by (rule engine_ok_step)
qed

subsection \<open>What a list of segments returns\<close>

lemma zip_entries:
  "set (zip (map Mac macIDs) (map (\<lambda>macID. uint32 (ID macID)) macIDs)) =
     (\<lambda>macID. (Mac macID, uint32 (ID macID))) ` set macIDs"
  by (simp add: zip_map_map zip_same_conv_map)

lemma in_entries:
  "(vif_Mac v, uint32 (vif_ID v)) \<in> (\<lambda>macID. (Mac macID, uint32 (ID macID))) ` S \<longleftrightarrow>
     (\<exists>macID \<in> S. Mac macID = vif_Mac v \<and> uint32 (ID macID) = uint32 (vif_ID v))"
  by (simp add: image_iff) metis

lemma returns_network_segments:
  "returns (map network_segment networkMacs) v \<longleftrightarrow>
     (\<exists>macID \<in> set (macIDs_of networkMacs). Mac macID = vif_Mac v \<and> uint32 (ID macID) = uint32 (vif_ID v))"
  unfolding returns_def network_segment_def macIDs_of_def
  by (simp add: zip_entries in_entries)

lemma returns_Nil: "\<not> returns [] v"
  by (simp add: returns_def)

lemma returns_one:
  "returns [\<lparr>seg_Id = i, seg_Mac = map Mac macIDs, seg_InterfaceId = map (\<lambda>macID. uint32 (ID macID)) macIDs\<rparr>] v \<longleftrightarrow>
     (\<exists>macID \<in> set macIDs. Mac macID = vif_Mac v \<and> uint32 (ID macID) = uint32 (vif_ID v))"
  unfolding returns_def
  by (simp add: zip_entries in_entries)

lemma found_ok: "index_ok t \<Longrightarrow> networkMacs_ok (found t k)"
proof (cases "map_of t k")
  case None
  then show ?thesis by (simp add: found_def networkMacs_ok_def macIDs_of_def)
next
  case (Some networkMacs)
  assume ok: "index_ok t"
  from Some have "(k, networkMacs) \<in> set t"
    by (rule map_of_SomeD)
  then have "networkMacs \<in> snd ` set t"
    by force
  with ok have "networkMacs_ok networkMacs"
    unfolding index_ok_def by blast
  with Some show ?thesis
    by (simp add: found_def)
qed

lemma no_empty_mac_returned:
  assumes "networkMacs_ok networkMacs" and "vif_Mac v = []"
  shows "\<not> (\<exists>macID \<in> set (macIDs_of networkMacs). Mac macID = vif_Mac v \<and> uint32 (ID macID) = uint32 (vif_ID v))"
  using assms by (auto simp add: networkMacs_ok_def)

lemma getSegmentsByID_found:
  "fst (getSegmentsByID t k s) = map network_segment (found t k)"
  by (simp add: getSegmentsByID_eq found_def split: option.split)

lemma getSegmentsByServer_found:
  "fst (getSegmentsByServer t k s) = map network_segment (found t k)"
  by (simp add: getSegmentsByServer_eq found_def split: option.split)

lemma returns_combined:
  "returns (fst (GetTypeVMSegments launchServer hostID s)) v \<longleftrightarrow>
     (\<exists>macID \<in> set (macIDs_of (found (launchServerToSegments s) launchServer))
                  \<union> set (macIDs_of (found (hostIDToSegments s) hostID)).
        Mac macID = vif_Mac v \<and> uint32 (ID macID) = uint32 (vif_ID v))"
  by (simp only: GetTypeVMSegments_eq fst_conv returns_one set_append)

lemma query_no_empty_mac:
  assumes "engine_ok s" and "vif_Mac v = []"
  shows "\<not> returns (fst (run_query q s)) v"
proof (cases q)
  case (ByLaunchServer server)
  from assms(1) have "networkMacs_ok (found (launchServerToSegments s) server)"
    by (simp add: engine_ok_def found_ok)
  from no_empty_mac_returned [OF this assms(2)] show ?thesis
    by (simp add: ByLaunchServer GetLaunchServerSegments_def getSegmentsByServer_found
        returns_network_segments)
next
  case (ByHostID hostID)
  from assms(1) have "networkMacs_ok (found (hostIDToSegments s) hostID)"
    by (simp add: engine_ok_def found_ok)
  from no_empty_mac_returned [OF this assms(2)] show ?thesis
    by (simp add: ByHostID GetHostIDSegments_def getSegmentsByID_found returns_network_segments)
next
  case (ByVMID vmID)
  from assms(1) have "networkMacs_ok (found (vmIDToSegments s) vmID)"
    by (simp add: engine_ok_def found_ok)
  from no_empty_mac_returned [OF this assms(2)] show ?thesis
    by (simp add: ByVMID GetVMIDSegments_def getSegmentsByID_found returns_network_segments)
next
  case (ByPodNodeID podNodeID)
  from assms(1) have "networkMacs_ok (found (podNodeIDToSegments s) podNodeID)"
    by (simp add: engine_ok_def found_ok)
  from no_empty_mac_returned [OF this assms(2)] show ?thesis
    by (simp add: ByPodNodeID GetPodNodeSegments_def getSegmentsByID_found returns_network_segments)
next
  case (ByVMTypeCombined server hostID)
  from assms(1) have a: "networkMacs_ok (found (launchServerToSegments s) server)"
    and b: "networkMacs_ok (found (hostIDToSegments s) hostID)"
    by (simp_all add: engine_ok_def found_ok)
  from no_empty_mac_returned [OF a assms(2)] no_empty_mac_returned [OF b assms(2)]
  show ?thesis
    by (auto simp add: ByVMTypeCombined returns_combined)
qed

lemma gateway_no_empty_mac:
  assumes "engine_ok s" and "vif_Mac v = []"
  shows "\<not> returns (fst (GetAllGatewayHostSegments s)) v"
proof
  assume "returns (fst (GetAllGatewayHostSegments s)) v"
  then obtain segment where seg: "segment \<in> set (allGatewayHostSegments s)"
    and "(vif_Mac v, uint32 (vif_ID v)) \<in> set (zip (seg_Mac segment) (seg_InterfaceId segment))"
    by (auto simp add: returns_def GetAllGatewayHostSegments_def)
  then have "vif_Mac v \<in> set (seg_Mac segment)"
    by (auto dest: set_zip_leftD)
  with assms seg show False
    by (auto simp add: engine_ok_def)
qed

subsection \<open>Conversion to uint32\<close>

lemma uint32_in_range:
  fixes x :: go_int
  assumes "0 \<le> sint x" and "sint x < 2 ^ 32"
  shows "uint (uint32 x) = sint x"
proof -
  from assms(2) have "sint x < 2 ^ 64"
    by simp
  with assms(1) have "take_bit 64 (sint x) = sint x"
    by (rule take_bit_int_eq_self)
  then have u: "uint x = sint x"
    using uint_sint [of x] by simp
  have "uint (uint32 x) = take_bit 32 (uint x)"
    by (simp add: uint32_def unsigned_ucast_eq)
  also have "\<dots> = sint x"
    unfolding u using assms by (rule take_bit_int_eq_self)
  finally show ?thesis .
qed

lemma uint32_inj_in_range:
  fixes x y :: go_int
  assumes "0 \<le> sint x" "sint x < 2 ^ 32" "0 \<le> sint y" "sint y < 2 ^ 32" "uint32 x = uint32 y"
  shows "x = y"
proof -
  from assms have "sint x = sint y"
    by (metis uint32_in_range)
  then show ?thesis
    by (rule signed_word_eqI)
qed

subsection \<open>The entry behind a per-entity query\<close>

lemma query_entry_segments:
  "query_entry q s = Some networkMacs \<Longrightarrow> fst (run_query q s) = map network_segment networkMacs"
  by (cases q)
    (simp_all add: GetLaunchServerSegments_def GetHostIDSegments_def GetVMIDSegments_def
      GetPodNodeSegments_def getSegmentsByID_eq getSegmentsByServer_eq)

lemma query_entry_ok:
  assumes "engine_ok s" and "query_entry q s = Some networkMacs"
  shows "networkMacs_ok networkMacs"
proof (cases q)
  case (ByLaunchServer server)
  with assms(2) have "found (launchServerToSegments s) server = networkMacs"
    by (simp add: found_def)
  with found_ok [of "launchServerToSegments s" server] assms(1) show ?thesis
    by (simp add: engine_ok_def)
next
  case (ByHostID hostID)
  with assms(2) have "found (hostIDToSegments s) hostID = networkMacs"
    by (simp add: found_def)
  with found_ok [of "hostIDToSegments s" hostID] assms(1) show ?thesis
    by (simp add: engine_ok_def)
next
  case (ByVMID vmID)
  with assms(2) have "found (vmIDToSegments s) vmID = networkMacs"
    by (simp add: found_def)
  with found_ok [of "vmIDToSegments s" vmID] assms(1) show ?thesis
    by (simp add: engine_ok_def)
next
  case (ByPodNodeID podNodeID)
  with assms(2) have "found (podNodeIDToSegments s) podNodeID = networkMacs"
    by (simp add: found_def)
  with found_ok [of "podNodeIDToSegments s" podNodeID] assms(1) show ?thesis
    by (simp add: engine_ok_def)
next
  case (ByVMTypeCombined server hostID)
  with assms(2) show ?thesis by simp
qed

lemma seg_Id_network_segment: "map seg_Id (map network_segment networkMacs) = map uint32 (map fst networkMacs)"
  by (simp add: network_segment_def)

lemma segment_ids_in_range:
  assumes "\<forall>networkID \<in> set networkIDs. 0 \<le> sint networkID \<and> sint networkID < 2 ^ 32"
  shows "map (\<lambda>networkID. uint (uint32 networkID)) networkIDs = map sint networkIDs"
  using assms by (induction networkIDs) (simp_all add: uint32_in_range)

lemma segment_ids_distinct:
  assumes "\<forall>networkID \<in> set networkIDs. 0 \<le> sint networkID \<and> sint networkID < 2 ^ 32"
    and "distinct networkIDs"
  shows "distinct (map uint32 networkIDs)"
proof -
  have "inj_on uint32 (set networkIDs)"
    using assms(1) by (auto intro!: inj_onI uint32_inj_in_range)
  with assms(2) show ?thesis
    by (simp add: distinct_map)
qed

subsection \<open>The closure maps of convertDBInfo\<close>

lemma vifs_at_Some: "map_of m k = Some vifs \<Longrightarrow> vifs_at m k = set vifs"
  by (simp add: vifs_at_def)

lemma vifs_at_None: "map_of m k = None \<Longrightarrow> vifs_at m k = {}"
  by (simp add: vifs_at_def)

lemma set_fold_mapset_Add: "set (fold mapset_Add vifs cur) = set cur \<union> set vifs"
  by (induction vifs arbitrary: cur) (auto simp add: mapset_Add_def)

lemma vifs_at_add:
  "vifs_at (IDToVifs_add k vifs m) k' = (if k' = k then vifs_at m k \<union> set vifs else vifs_at m k')"
  by (simp add: vifs_at_def IDToVifs_add_def update_conv' set_fold_mapset_Add split: option.split)

lemma distinct_IDToVifs_add: "distinct (map fst m) \<Longrightarrow> distinct (map fst (IDToVifs_add k vifs m))"
  by (simp add: IDToVifs_add_def distinct_update split: option.split)

lemma vifs_at_pods:
  "vifs_at (fold (\<lambda>id' acc.
                    (case map_of (podIDToVifs rawData) id' of
                       Some vifs \<Rightarrow> IDToVifs_add n vifs acc
                     | None \<Rightarrow> acc)) podIDs m) k =
     (if k = n then vifs_at m k \<union> (\<Union>podID \<in> set podIDs. vifs_at (podIDToVifs rawData) podID)
      else vifs_at m k)"
proof (induction podIDs arbitrary: m)
  case Nil
  show ?case by simp
next
  case (Cons p podIDs)
  show ?case
  proof (cases "map_of (podIDToVifs rawData) p")
    case None
    then show ?thesis
      by (simp add: Cons.IH) (simp add: vifs_at_def)
  next
    case (Some vifs)
    then have at: "vifs_at (podIDToVifs rawData) p = set vifs"
      by (simp add: vifs_at_def)
    show ?thesis
      by (simp add: Some Cons.IH vifs_at_add at Un_assoc)
  qed
qed

lemma distinct_pods:
  "distinct (map fst m) \<Longrightarrow>
     distinct (map fst (fold (\<lambda>id' acc.
                    (case map_of (podIDToVifs rawData) id' of
                       Some vifs \<Rightarrow> IDToVifs_add n vifs acc
                     | None \<Rightarrow> acc)) podIDs m))"
  by (induction podIDs arbitrary: m) (simp_all add: distinct_IDToVifs_add split: option.split)

lemma vifs_at_podnode_vifs:
  "vifs_at (podnode_vifs rawData podnode m) k =
     (if k = podnode_ID podnode then vifs_at m k \<union> podnode_own rawData k else vifs_at m k)"
proof -
  let ?n = "podnode_ID podnode"
  let ?own = "(case map_of (podNodeIDToVifs rawData) ?n of
                   Some vifs \<Rightarrow> IDToVifs_add ?n vifs m
                 | None \<Rightarrow> m)"
  have own: "vifs_at ?own k' =
      (if k' = ?n then vifs_at m k' \<union> vifs_at (podNodeIDToVifs rawData) ?n else vifs_at m k')" for k'
    by (cases "map_of (podNodeIDToVifs rawData) ?n")
      (simp_all add: vifs_at_add vifs_at_Some vifs_at_None)
  show ?thesis
    by (cases "map_of (podNodeIDtoPodIDs rawData) ?n")
      (simp_all add: podnode_vifs_def Let_def own vifs_at_pods podnode_own_def Un_assoc)
qed

lemma distinct_podnode_vifs:
  "distinct (map fst m) \<Longrightarrow> distinct (map fst (podnode_vifs rawData podnode m))"
  by (simp add: podnode_vifs_def Let_def distinct_pods distinct_IDToVifs_add split: option.split)

lemma vifs_at_podnodes:
  "vifs_at (fold (\<lambda>entry. podnode_vifs rawData (snd entry)) podnodes m) k =
     (if k \<in> podnode_ID ` snd ` set podnodes then vifs_at m k \<union> podnode_own rawData k
      else vifs_at m k)"
  by (induction podnodes arbitrary: m) (auto simp add: vifs_at_podnode_vifs)

lemma distinct_podnodes:
  "distinct (map fst m) \<Longrightarrow>
     distinct (map fst (fold (\<lambda>entry. podnode_vifs rawData (snd entry)) podnodes m))"
  by (induction podnodes arbitrary: m) (simp_all add: distinct_podnode_vifs)

lemma vifs_at_new: "vifs_at newIDToVifs k = {}"
  by (simp add: vifs_at_def newIDToVifs_def)

lemma podNodeIDToAllVifs_closure:
  "vifs_at (podNodeIDToAllVifs (convertDBInfo rawData s)) n = podnode_closure rawData n"
  by (simp add: convertDBInfo_def Let_def vifs_at_podnodes vifs_at_new
      podnode_closure_def podnode_own_def)

lemma podNodeIDToAllVifs_distinct:
  "distinct (map fst (podNodeIDToAllVifs (convertDBInfo rawData s)))"
  by (simp add: convertDBInfo_def Let_def distinct_podnodes newIDToVifs_def)

lemma vifs_at_vm_podnode_vifs:
  "vifs_at (vm_podnode_vifs pm entry m) k =
     (if k = snd entry then vifs_at m k \<union> vifs_at pm (fst entry) else vifs_at m k)"
proof (cases entry)
  case (Pair n v)
  show ?thesis
    by (cases "map_of pm n")
      (simp_all add: Pair vm_podnode_vifs_def vifs_at_add vifs_at_Some vifs_at_None)
qed

lemma vifs_at_owners:
  "vifs_at (fold (vm_podnode_vifs pm) owners m) k =
     vifs_at m k \<union> (\<Union>n \<in> fst ` set (filter (\<lambda>entry. snd entry = k) owners). vifs_at pm n)"
  by (induction owners arbitrary: m) (auto simp add: vifs_at_vm_podnode_vifs)

lemma vmIDToPodNodeAllVifs_closure:
  "vifs_at (vmIDToPodNodeAllVifs (convertDBInfo rawData s)) v = vm_closure rawData v"
proof -
  have pm: "vifs_at (fold (\<lambda>entry. podnode_vifs rawData (snd entry)) (idToPodNode rawData) newIDToVifs) n =
      podnode_closure rawData n" for n
    using podNodeIDToAllVifs_closure [of rawData s n] by (simp add: convertDBInfo_def Let_def)
  show ?thesis
    by (simp add: convertDBInfo_def Let_def vifs_at_owners pm vifs_at_new vm_closure_def)
qed

subsection \<open>The content of the indices after a build\<close>

lemma found_fold_update:
  "distinct (map fst xs) \<Longrightarrow>
     found (fold (\<lambda>(k, v). AList.update k (f k v)) xs []) k =
       (case map_of xs k of Some v \<Rightarrow> f k v | None \<Rightarrow> [])"
  by (simp add: found_def map_of_fold_update split: option.split)

lemma macIDs_of_new: "macIDs_of newNetworkMacs = []"
  by (simp add: macIDs_of_def newNetworkMacs_def)

lemma macIDs_of_add_vifs_of:
  "set (macIDs_of (add_vifs_of m k n)) =
     set (macIDs_of n) \<union> newMacID ` {v \<in> vifs_at m k. vif_Mac v \<noteq> []}"
  by (cases "map_of m k") (simp_all add: add_vifs_of_def macIDs_of_fold_add vifs_at_Some vifs_at_None)

lemma vmIDToSegments_build:
  "vmIDToSegments (generateBaseSegments rawData s) =
     fold (\<lambda>(vmID, vifs).
             AList.update vmID
               (add_vifs_of (vmIDToPodNodeAllVifs (convertDBInfo rawData s)) vmID
                  (fold NetworkMacs_add vifs newNetworkMacs)))
          (vmIDToVifs rawData) []"
  by (simp add: generateBaseSegments_def generateGatewayHostSegments_def
      generateBaseSegmentsFromDB_def Let_def newIDToNetworkMacs_def)

lemma podNodeIDToSegments_build:
  "podNodeIDToSegments (generateBaseSegments rawData s) =
     fold (\<lambda>(podNodeID, vifs). AList.update podNodeID (fold NetworkMacs_add vifs newNetworkMacs))
          (podNodeIDToAllVifs (convertDBInfo rawData s)) []"
  by (simp add: generateBaseSegments_def generateGatewayHostSegments_def
      generateBaseSegmentsFromDB_def Let_def newIDToNetworkMacs_def)

lemma hostIDToSegments_build:
  "hostIDToSegments (generateBaseSegments rawData s) =
     fold (\<lambda>(hostID, vifs). AList.update hostID (fold NetworkMacs_add vifs newNetworkMacs))
          (hostIDToVifs rawData) []"
  by (simp add: generateBaseSegments_def generateGatewayHostSegments_def
      generateBaseSegmentsFromDB_def Let_def newIDToNetworkMacs_def)

lemma vm_entries:
  assumes "distinct (map fst (vmIDToVifs rawData))"
  shows "set (macIDs_of (found (vmIDToSegments (generateBaseSegments rawData s)) vmID)) =
     (if map_of (vmIDToVifs rawData) vmID = None then {}
      else newMacID ` {v \<in> vifs_at (vmIDToVifs rawData) vmID \<union> vm_closure rawData vmID. vif_Mac v \<noteq> []})"
proof (cases "map_of (vmIDToVifs rawData) vmID")
  case None
  then show ?thesis
    by (simp add: vmIDToSegments_build found_fold_update [OF assms] macIDs_of_def)
next
  case (Some vifs)
  then show ?thesis
    by (auto simp add: vmIDToSegments_build found_fold_update [OF assms] macIDs_of_add_vifs_of
        macIDs_of_fold_add macIDs_of_new vmIDToPodNodeAllVifs_closure vifs_at_Some)
qed

lemma podnode_entries:
  "set (macIDs_of (found (podNodeIDToSegments (generateBaseSegments rawData s)) podNodeID)) =
     newMacID ` {v \<in> podnode_closure rawData podNodeID. vif_Mac v \<noteq> []}"
proof (cases "map_of (podNodeIDToAllVifs (convertDBInfo rawData s)) podNodeID")
  case None
  then have "podnode_closure rawData podNodeID = {}"
    using podNodeIDToAllVifs_closure [of rawData s podNodeID] by (simp add: vifs_at_None)
  with None show ?thesis
    by (simp add: podNodeIDToSegments_build found_fold_update [OF podNodeIDToAllVifs_distinct]
        macIDs_of_def)
next
  case (Some vifs)
  then have "podnode_closure rawData podNodeID = set vifs"
    using podNodeIDToAllVifs_closure [of rawData s podNodeID] by (simp add: vifs_at_Some)
  with Some show ?thesis
    by (simp add: podNodeIDToSegments_build found_fold_update [OF podNodeIDToAllVifs_distinct]
        macIDs_of_fold_add macIDs_of_new)
qed

lemma host_entries:
  assumes "distinct (map fst (hostIDToVifs rawData))"
  shows "set (macIDs_of (found (hostIDToSegments (generateBaseSegments rawData s)) hostID)) =
     newMacID ` {v \<in> vifs_at (hostIDToVifs rawData) hostID. vif_Mac v \<noteq> []}"
  by (cases "map_of (hostIDToVifs rawData) hostID")
    (simp_all add: hostIDToSegments_build found_fold_update [OF assms] macIDs_of_fold_add
      macIDs_of_new vifs_at_Some vifs_at_None, simp add: macIDs_of_def)

subsection \<open>Queries after a build\<close>

lemma returns_entries:
  "returns (map network_segment networkMacs) v \<longleftrightarrow>
     (\<exists>w. newMacID w \<in> set (macIDs_of networkMacs) \<and> same_on_wire w v)"
proof -
  have "(\<exists>macID \<in> set (macIDs_of networkMacs). Mac macID = vif_Mac v \<and> uint32 (ID macID) = uint32 (vif_ID v))
      \<longleftrightarrow> (\<exists>w. newMacID w \<in> set (macIDs_of networkMacs) \<and> same_on_wire w v)"
  proof
    assume "\<exists>macID \<in> set (macIDs_of networkMacs). Mac macID = vif_Mac v \<and> uint32 (ID macID) = uint32 (vif_ID v)"
    then obtain macID where m: "macID \<in> set (macIDs_of networkMacs)"
      and eq: "Mac macID = vif_Mac v" "uint32 (ID macID) = uint32 (vif_ID v)"
      by blast
    let ?w = "\<lparr>vif_Mac = Mac macID, vif_ID = ID macID, vif_NetworkID = 0\<rparr>"
    have "newMacID ?w = macID"
      by (simp add: newMacID_def)
    with m eq have "newMacID ?w \<in> set (macIDs_of networkMacs) \<and> same_on_wire ?w v"
      by (simp add: same_on_wire_def)
    then show "\<exists>w. newMacID w \<in> set (macIDs_of networkMacs) \<and> same_on_wire w v" ..
  next
    assume "\<exists>w. newMacID w \<in> set (macIDs_of networkMacs) \<and> same_on_wire w v"
    then obtain w where "newMacID w \<in> set (macIDs_of networkMacs)" and "same_on_wire w v"
      by blast
    then show "\<exists>macID \<in> set (macIDs_of networkMacs). Mac macID = vif_Mac v \<and> uint32 (ID macID) = uint32 (vif_ID v)"
      by (force simp add: same_on_wire_def newMacID_def)
  qed
  then show ?thesis
    by (simp add: returns_network_segments)
qed

lemma newMacID_same: "newMacID w = newMacID w' \<Longrightarrow> same_on_wire w v \<Longrightarrow> same_on_wire w' v"
  by (simp add: newMacID_def same_on_wire_def)

lemma returns_from_set:
  assumes "set (macIDs_of networkMacs) = newMacID ` {w \<in> A. vif_Mac w \<noteq> []}"
  shows "returns (map network_segment networkMacs) v \<longleftrightarrow>
     (\<exists>w \<in> A. vif_Mac w \<noteq> [] \<and> same_on_wire w v)"
  unfolding returns_entries assms
  by (auto intro: newMacID_same)

lemma same_on_wire_refl: "same_on_wire v v"
  by (simp add: same_on_wire_def)

lemma returns_podnode:
  "returns (fst (GetPodNodeSegments podNodeID (generateBaseSegments rawData s))) v \<longleftrightarrow>
     (\<exists>w \<in> podnode_closure rawData podNodeID. vif_Mac w \<noteq> [] \<and> same_on_wire w v)"
  unfolding GetPodNodeSegments_def getSegmentsByID_found
  by (rule returns_from_set) (rule podnode_entries)

lemma returns_vm:
  assumes "distinct (map fst (vmIDToVifs rawData))"
  shows "returns (fst (GetVMIDSegments vmID (generateBaseSegments rawData s))) v \<longleftrightarrow>
     (map_of (vmIDToVifs rawData) vmID \<noteq> None \<and>
      (\<exists>w \<in> vifs_at (vmIDToVifs rawData) vmID \<union> vm_closure rawData vmID.
          vif_Mac w \<noteq> [] \<and> same_on_wire w v))"
proof (cases "map_of (vmIDToVifs rawData) vmID = None")
  case True
  then have "set (macIDs_of (found (vmIDToSegments (generateBaseSegments rawData s)) vmID)) = {}"
    by (simp add: vm_entries [OF assms])
  then have "\<not> returns (fst (GetVMIDSegments vmID (generateBaseSegments rawData s))) v"
    by (simp add: GetVMIDSegments_def getSegmentsByID_found returns_entries)
  with True show ?thesis
    by blast
next
  case False
  then obtain vifs where some: "map_of (vmIDToVifs rawData) vmID = Some vifs"
    by blast
  have "set (macIDs_of (found (vmIDToSegments (generateBaseSegments rawData s)) vmID)) =
      newMacID ` {w \<in> vifs_at (vmIDToVifs rawData) vmID \<union> vm_closure rawData vmID. vif_Mac w \<noteq> []}"
    by (simp add: vm_entries [OF assms] some)
  from returns_from_set [OF this] show ?thesis
    by (simp add: GetVMIDSegments_def getSegmentsByID_found some)
qed

lemma podnode_closure_in_vm_closure:
  "map_of (podNodeIDToVmID rawData) n = Some v \<Longrightarrow> podnode_closure rawData n \<subseteq> vm_closure rawData v"
proof -
  assume "map_of (podNodeIDToVmID rawData) n = Some v"
  then have "(n, v) \<in> set (podNodeIDToVmID rawData)"
    by (rule map_of_SomeD)
  then have "n \<in> fst ` set (filter (\<lambda>entry. snd entry = v) (podNodeIDToVmID rawData))"
    by force
  then show ?thesis
    unfolding vm_closure_def by blast
qed

lemma vm_closure_owned:
  assumes "map_of (podNodeIDToVmID rawData) n0 = None" and "w \<in> vm_closure rawData v"
  shows "\<exists>n. n \<noteq> n0 \<and> w \<in> podnode_closure rawData n"
proof -
  from assms(2) obtain n where n: "n \<in> fst ` set (filter (\<lambda>entry. snd entry = v) (podNodeIDToVmID rawData))"
    and w: "w \<in> podnode_closure rawData n"
    unfolding vm_closure_def by blast
  from n have "n \<in> fst ` set (podNodeIDToVmID rawData)"
    by auto
  moreover from assms(1) have "n0 \<notin> fst ` set (podNodeIDToVmID rawData)"
    by (simp add: map_of_eq_None_iff)
  ultimately have "n \<noteq> n0"
    by blast
  with w show ?thesis
    by blast
qed

lemma in_podnode_closure_own:
  assumes "N \<in> podnode_ID ` snd ` set (idToPodNode rawData)"
    and "map_of (podNodeIDToVifs rawData) N = Some nodeVifs" and "I2 \<in> set nodeVifs"
  shows "I2 \<in> podnode_closure rawData N"
  using assms by (simp add: podnode_closure_def podnode_own_def vifs_at_Some)

lemma in_podnode_closure_pod:
  assumes "N \<in> podnode_ID ` snd ` set (idToPodNode rawData)"
    and "map_of (podNodeIDtoPodIDs rawData) N = Some podIDs" and "P \<in> set podIDs"
    and "map_of (podIDToVifs rawData) P = Some podVifs" and "I1 \<in> set podVifs"
  shows "I1 \<in> podnode_closure rawData N"
proof -
  from assms(4,5) have "I1 \<in> vifs_at (podIDToVifs rawData) P"
    by (simp add: vifs_at_Some)
  with assms(3) have "\<exists>podID \<in> set podIDs. I1 \<in> vifs_at (podIDToVifs rawData) podID"
    by blast
  with assms(1,2) show ?thesis
    by (simp add: podnode_closure_def podnode_own_def)
qed

subsection \<open>The ids a host query claims\<close>

lemma ids_of_macIDs_of: "ids_of networkMacs = ID ` set (macIDs_of networkMacs)"
  by (simp add: ids_of_def macIDs_of_def)

lemma host_ids:
  assumes "distinct (map fst (hostIDToVifs rawData))"
  shows "index_ids (hostIDToSegments (generateBaseSegments rawData s)) hostID =
     vif_ID ` {v \<in> vifs_at (hostIDToVifs rawData) hostID. vif_Mac v \<noteq> []}"
proof -
  have "ID ` newMacID ` A = vif_ID ` A" for A
    by (simp add: image_image newMacID_def)
  then show ?thesis
    by (simp add: index_ids_found ids_of_macIDs_of host_entries [OF assms])
qed

lemma query_ids_clear [simp]: "query_ids q (ClearVTapUsedVInterfaceIDs s) = query_ids q s"
  by (simp add: ClearVTapUsedVInterfaceIDs_def)

section \<open>Results that do not depend on the order of iteration\<close>

subsection \<open>Visiting in a chosen order\<close>

lemma mset_visit: "valid_order ord \<Longrightarrow> mset (visit ord site xs) = mset xs"
proof -
  assume "valid_order ord"
  then have "mset (ord site (length xs)) = mset [0..<length xs]"
    by (simp add: valid_order_def)
  then have "image_mset (\<lambda>i. xs ! i) (mset (ord site (length xs))) =
      image_mset (\<lambda>i. xs ! i) (mset [0..<length xs])"
    by simp
  then have "mset (map (\<lambda>i. xs ! i) (ord site (length xs))) = mset (map (\<lambda>i. xs ! i) [0..<length xs])"
    by simp
  then show ?thesis
    by (simp add: visit_def map_nth)
qed

lemma set_visit: "valid_order ord \<Longrightarrow> set (visit ord site xs) = set xs"
  by (rule mset_eq_setD) (rule mset_visit)

lemma distinct_visit: "valid_order ord \<Longrightarrow> distinct (visit ord site xs) = distinct xs"
  by (rule mset_eq_imp_distinct_iff) (rule mset_visit)

lemma distinct_keys_visit:
  "valid_order ord \<Longrightarrow> distinct (map fst (visit ord site xs)) = distinct (map fst xs)"
proof -
  assume "valid_order ord"
  then have "image_mset fst (mset (visit ord site xs)) = image_mset fst (mset xs)"
    by (simp add: mset_visit)
  then have "mset (map fst (visit ord site xs)) = mset (map fst xs)"
    by simp
  then show ?thesis
    by (rule mset_eq_imp_distinct_iff)
qed

lemma map_of_visit:
  assumes "valid_order ord" and "distinct (map fst xs)"
  shows "map_of (visit ord site xs) = map_of xs"
proof -
  from assms have "distinct (map fst (visit ord site xs))"
    by (simp add: distinct_keys_visit)
  moreover from assms(1) have "set (visit ord site xs) = set xs"
    by (rule set_visit)
  ultimately show ?thesis
    using assms(2) by (simp add: map_of_inject_set)
qed

lemma visit_forward: "visit forward site xs = xs"
  by (simp add: visit_def forward_def map_nth)

lemma valid_forward: "valid_order forward"
  by (simp add: valid_order_def forward_def)

lemma valid_backward: "valid_order backward"
  by (simp add: valid_order_def backward_def)

subsection \<open>The entries of a network, as a multiset\<close>

lemma entries_add:
  "entries (NetworkMacs_add v networkMacs) n =
     entries networkMacs n + (if vif_Mac v \<noteq> [] \<and> vif_NetworkID v = n then {#newMacID v#} else {#})"
  by (simp add: entries_def NetworkMacs_get_def NetworkMacs_add_def update_conv' Let_def
      split: option.split)

lemma entries_fold_add:
  "entries (fold NetworkMacs_add vs networkMacs) n = entries networkMacs n + indexed n (mset vs)"
  by (induction vs arbitrary: networkMacs) (simp_all add: entries_add indexed_def)

lemma entries_new: "entries newNetworkMacs n = {#}"
  by (simp add: entries_def NetworkMacs_get_def newNetworkMacs_def)

lemma entries_Nil: "entries [] n = {#}"
  by (simp add: entries_def NetworkMacs_get_def)

subsection \<open>What is visible of an index entry\<close>

lemma distinct_of_keys: "distinct (map fst xs) \<Longrightarrow> distinct xs"
  by (simp add: distinct_map)

lemma alist_mset_cong:
  assumes "distinct (map fst xs)" and "distinct (map fst ys)"
    and "\<And>k. map_option a (map_of xs k) = map_option a (map_of ys k)"
  shows "image_mset (\<lambda>entry. (fst entry, a (snd entry))) (mset xs) =
         image_mset (\<lambda>entry. (fst entry, a (snd entry))) (mset ys)"
proof -
  let ?f = "\<lambda>entry. (fst entry, a (snd entry))"
  have f: "?f = (\<lambda>(k, v). (k, a v))"
    by (simp add: fun_eq_iff)
  have keys: "map fst (map ?f zs) = map fst zs" for zs :: "('a \<times> 'b) list"
    by simp
  have dx: "distinct (map fst (map ?f xs))" and dy: "distinct (map fst (map ?f ys))"
    using assms(1,2) by (simp_all only: keys)
  have "map_of (map ?f zs) k = map_option a (map_of zs k)" for zs :: "('a \<times> 'b) list" and k
    unfolding f by (simp add: map_of_map)
  with assms(3) have "map_of (map ?f xs) = map_of (map ?f ys)"
    by (simp add: fun_eq_iff)
  then have seteq: "set (map ?f xs) = set (map ?f ys)"
    by (rule iffD1 [OF map_of_inject_set [OF dx dy]])
  from dx have d1: "distinct (map ?f xs)"
    by (rule distinct_of_keys)
  from dy have d2: "distinct (map ?f ys)"
    by (rule distinct_of_keys)
  have "mset (map ?f xs) = mset (map ?f ys)"
    by (rule iffD1 [OF set_eq_iff_mset_eq_distinct [OF d1 d2] seteq])
  then show ?thesis
    by simp
qed

lemma lookup_ok:
  "networkMacs_ok networkMacs \<Longrightarrow> map_of networkMacs n = Some macIDs \<Longrightarrow> macIDs \<noteq> []"
proof -
  assume ok: "networkMacs_ok networkMacs" and "map_of networkMacs n = Some macIDs"
  then have "(n, macIDs) \<in> set networkMacs"
    by (simp add: map_of_SomeD)
  then have "macIDs \<in> snd ` set networkMacs"
    by force
  with ok show ?thesis
    unfolding networkMacs_ok_def by blast
qed

lemma groups_cong:
  assumes "networkMacs_ok networkMacs" and "networkMacs_ok networkMacs'"
    and same: "\<And>n. entries networkMacs n = entries networkMacs' n"
  shows "groups networkMacs = groups networkMacs'"
  unfolding groups_def
proof (rule alist_mset_cong)
  show "distinct (map fst networkMacs)" "distinct (map fst networkMacs')"
    using assms(1,2) by (simp_all add: networkMacs_ok_def)
  fix n
  show "map_option mset (map_of networkMacs n) = map_option mset (map_of networkMacs' n)"
  proof (cases "map_of networkMacs n")
    case None
    show ?thesis
    proof (cases "map_of networkMacs' n")
      case None': None
      with None show ?thesis by simp
    next
      case (Some macIDs)
      with None same [of n] have "macIDs = []"
        by (simp add: entries_def NetworkMacs_get_def)
      with lookup_ok [OF assms(2) Some] show ?thesis by simp
    qed
  next
    case (Some macIDs)
    show ?thesis
    proof (cases "map_of networkMacs' n")
      case None
      with Some same [of n] have "macIDs = []"
        by (simp add: entries_def NetworkMacs_get_def)
      with lookup_ok [OF assms(1) Some] show ?thesis by simp
    next
      case Some': (Some macIDs')
      with Some same [of n] show ?thesis
        by (simp add: entries_def NetworkMacs_get_def)
    qed
  qed
qed

lemma groups_visit: "valid_order ord \<Longrightarrow> groups (visit ord site networkMacs) = groups networkMacs"
  by (simp add: groups_def mset_visit)

lemma seg_content_network_segment:
  "seg_content (network_segment entry) = (uint32 (fst entry), image_mset on_wire (mset (snd entry)))"
proof -
  have "zip (map Mac macIDs) (map (\<lambda>macID. uint32 (ID macID)) macIDs) = map on_wire macIDs"
    for macIDs
    by (simp add: zip_map_map zip_same_conv_map on_wire_def)
  then show ?thesis
    by (simp add: seg_content_def network_segment_def)
qed

lemma content_network_segments:
  "content (map network_segment networkMacs) =
     image_mset (\<lambda>g. (uint32 (fst g), image_mset on_wire (snd g))) (groups networkMacs)"
  by (simp add: content_def groups_def seg_content_network_segment multiset.map_comp comp_def)

lemma seg_content_gateway_view:
  "seg_content (gateway_view entry) = (1, image_mset on_wire (mset (snd entry)))"
proof -
  have "zip (map Mac macIDs) (map (\<lambda>macID. uint32 (ID macID)) macIDs) = map on_wire macIDs"
    for macIDs
    by (simp add: zip_map_map zip_same_conv_map on_wire_def)
  then show ?thesis
    by (simp add: seg_content_def gateway_view_def)
qed

lemma content_gateway_views:
  "content (map gateway_view networkMacs) =
     image_mset (\<lambda>g. (1, image_mset on_wire (snd g))) (groups networkMacs)"
  by (simp add: content_def groups_def seg_content_gateway_view multiset.map_comp comp_def)

lemma mset_macIDs_of: "mset (macIDs_of networkMacs) = (\<Sum>g \<in># groups networkMacs. snd g)"
  by (induction networkMacs) (simp_all add: macIDs_of_def groups_def)

subsection \<open>The closure maps, whatever the order\<close>

lemma distinct_fold_mapset_Add: "distinct cur \<Longrightarrow> distinct (fold mapset_Add vs cur)"
  by (induction vs arbitrary: cur) (simp_all add: mapset_Add_def)

lemma sets_distinct_update:
  "sets_distinct m \<Longrightarrow> distinct xs \<Longrightarrow> sets_distinct (AList.update k xs m)"
  using update_values [of k xs m] unfolding sets_distinct_def by blast

lemma sets_distinct_lookup: "sets_distinct m \<Longrightarrow> map_of m k = Some xs \<Longrightarrow> distinct xs"
proof -
  assume d: "sets_distinct m" and "map_of m k = Some xs"
  then have "(k, xs) \<in> set m"
    by (simp add: map_of_SomeD)
  then have "xs \<in> snd ` set m"
    by force
  with d show ?thesis
    unfolding sets_distinct_def by blast
qed

lemma sets_distinct_Nil: "sets_distinct []"
  by (simp add: sets_distinct_def)

lemma sets_distinct_add_ord:
  assumes "sets_distinct m" and "distinct vifs"
  shows "sets_distinct (IDToVifs_add_ord ord site k vifs m)"
proof (cases "map_of m k")
  case None
  with assms show ?thesis
    by (simp add: IDToVifs_add_ord_def sets_distinct_update)
next
  case (Some cur)
  with assms(1) have "distinct cur"
    by (rule sets_distinct_lookup)
  then have "distinct (fold mapset_Add (visit ord site vifs) cur)"
    by (rule distinct_fold_mapset_Add)
  with assms(1) Some show ?thesis
    by (simp add: IDToVifs_add_ord_def sets_distinct_update)
qed

lemma vifs_at_add_ord:
  "valid_order ord \<Longrightarrow>
     vifs_at (IDToVifs_add_ord ord site k vifs m) k' =
       (if k' = k then vifs_at m k \<union> set vifs else vifs_at m k')"
  by (simp add: vifs_at_def IDToVifs_add_ord_def update_conv' set_fold_mapset_Add set_visit
      split: option.split)

lemma distinct_IDToVifs_add_ord:
  "distinct (map fst m) \<Longrightarrow> distinct (map fst (IDToVifs_add_ord ord site k vifs m))"
  by (simp add: IDToVifs_add_ord_def distinct_update split: option.split)

lemma vifs_at_pods_ord:
  assumes "valid_order ord"
  shows "vifs_at (fold (\<lambda>id' acc.
                    (case map_of (podIDToVifs rawData) id' of
                       Some vifs \<Rightarrow> IDToVifs_add_ord ord (Site 197 [IntKey e, IntKey id']) n vifs acc
                     | None \<Rightarrow> acc)) podIDs m) k =
     (if k = n then vifs_at m k \<union> (\<Union>podID \<in> set podIDs. vifs_at (podIDToVifs rawData) podID)
      else vifs_at m k)"
proof (induction podIDs arbitrary: m)
  case Nil
  show ?case by simp
next
  case (Cons p podIDs)
  show ?case
  proof (cases "map_of (podIDToVifs rawData) p")
    case None
    then show ?thesis
      by (simp add: Cons.IH) (simp add: vifs_at_def)
  next
    case (Some vifs)
    then have at: "vifs_at (podIDToVifs rawData) p = set vifs"
      by (simp add: vifs_at_def)
    show ?thesis
      by (simp add: Some Cons.IH vifs_at_add_ord [OF assms] at Un_assoc)
  qed
qed

lemma distinct_pods_ord:
  "distinct (map fst m) \<Longrightarrow>
     distinct (map fst (fold (\<lambda>id' acc.
                    (case map_of (podIDToVifs rawData) id' of
                       Some vifs \<Rightarrow> IDToVifs_add_ord ord (Site 197 [IntKey e, IntKey id']) n vifs acc
                     | None \<Rightarrow> acc)) podIDs m))"
  by (induction podIDs arbitrary: m) (simp_all add: distinct_IDToVifs_add_ord split: option.split)

lemma sets_distinct_pods_ord:
  assumes "sets_distinct (podIDToVifs rawData)"
  shows "sets_distinct m \<Longrightarrow>
     sets_distinct (fold (\<lambda>id' acc.
                    (case map_of (podIDToVifs rawData) id' of
                       Some vifs \<Rightarrow> IDToVifs_add_ord ord (Site 197 [IntKey e, IntKey id']) n vifs acc
                     | None \<Rightarrow> acc)) podIDs m)"
proof (induction podIDs arbitrary: m)
  case Nil
  then show ?case by simp
next
  case (Cons p podIDs)
  show ?case
  proof (cases "map_of (podIDToVifs rawData) p")
    case None
    with Cons show ?thesis by simp
  next
    case (Some vifs)
    with assms have "distinct vifs"
      by (rule sets_distinct_lookup)
    with Cons.prems have "sets_distinct (IDToVifs_add_ord ord (Site 197 [IntKey e, IntKey p]) n vifs m)"
      by (rule sets_distinct_add_ord)
    then show ?thesis
      by (simp add: Some Cons.IH)
  qed
qed

lemma vifs_at_podnode_vifs_ord:
  assumes "valid_order ord"
  shows "vifs_at (podnode_vifs_ord ord rawData entry m) k =
     (if k = podnode_ID (snd entry) then vifs_at m k \<union> podnode_own rawData k else vifs_at m k)"
proof -
  let ?n = "podnode_ID (snd entry)"
  let ?own = "(case map_of (podNodeIDToVifs rawData) ?n of
                   Some vifs \<Rightarrow> IDToVifs_add_ord ord (Site 191 [IntKey (fst entry)]) ?n vifs m
                 | None \<Rightarrow> m)"
  have own: "vifs_at ?own k' =
      (if k' = ?n then vifs_at m k' \<union> vifs_at (podNodeIDToVifs rawData) ?n else vifs_at m k')" for k'
    by (cases "map_of (podNodeIDToVifs rawData) ?n")
      (simp_all add: vifs_at_add_ord [OF assms] vifs_at_Some vifs_at_None)
  show ?thesis
    by (cases "map_of (podNodeIDtoPodIDs rawData) ?n")
      (simp_all add: podnode_vifs_ord_def Let_def own vifs_at_pods_ord [OF assms] podnode_own_def
        Un_assoc set_visit [OF assms])
qed

lemma distinct_podnode_vifs_ord:
  "distinct (map fst m) \<Longrightarrow> distinct (map fst (podnode_vifs_ord ord rawData entry m))"
  by (simp add: podnode_vifs_ord_def Let_def distinct_pods_ord distinct_IDToVifs_add_ord
      split: option.split)

lemma sets_distinct_podnode_vifs_ord:
  assumes "sets_distinct (podIDToVifs rawData)" and "sets_distinct (podNodeIDToVifs rawData)"
    and "sets_distinct m"
  shows "sets_distinct (podnode_vifs_ord ord rawData entry m)"
proof -
  let ?n = "podnode_ID (snd entry)"
  let ?own = "(case map_of (podNodeIDToVifs rawData) ?n of
                   Some vifs \<Rightarrow> IDToVifs_add_ord ord (Site 191 [IntKey (fst entry)]) ?n vifs m
                 | None \<Rightarrow> m)"
  have own: "sets_distinct ?own"
  proof (cases "map_of (podNodeIDToVifs rawData) ?n")
    case None
    with assms(3) show ?thesis by simp
  next
    case (Some vifs)
    with assms(2) have "distinct vifs"
      by (rule sets_distinct_lookup)
    with assms(3) Some show ?thesis
      by (simp add: sets_distinct_add_ord)
  qed
  show ?thesis
    by (cases "map_of (podNodeIDtoPodIDs rawData) ?n")
      (simp_all add: podnode_vifs_ord_def Let_def own sets_distinct_pods_ord [OF assms(1) own])
qed

lemma vifs_at_podnodes_ord:
  assumes "valid_order ord"
  shows "vifs_at (fold (podnode_vifs_ord ord rawData) podnodes m) k =
     (if k \<in> podnode_ID ` snd ` set podnodes then vifs_at m k \<union> podnode_own rawData k
      else vifs_at m k)"
  by (induction podnodes arbitrary: m) (auto simp add: vifs_at_podnode_vifs_ord [OF assms])

lemma distinct_podnodes_ord:
  "distinct (map fst m) \<Longrightarrow> distinct (map fst (fold (podnode_vifs_ord ord rawData) podnodes m))"
  by (induction podnodes arbitrary: m) (simp_all add: distinct_podnode_vifs_ord)

lemma sets_distinct_podnodes_ord:
  assumes "sets_distinct (podIDToVifs rawData)" and "sets_distinct (podNodeIDToVifs rawData)"
  shows "sets_distinct m \<Longrightarrow> sets_distinct (fold (podnode_vifs_ord ord rawData) podnodes m)"
  by (induction podnodes arbitrary: m) (simp_all add: sets_distinct_podnode_vifs_ord [OF assms])

lemma podNodeIDToAllVifs_ord_closure:
  "valid_order ord \<Longrightarrow>
     vifs_at (podNodeIDToAllVifs (convertDBInfo_ord ord rawData s)) n = podnode_closure rawData n"
  by (simp add: convertDBInfo_ord_def Let_def vifs_at_podnodes_ord vifs_at_new set_visit
      podnode_closure_def podnode_own_def)

lemma podNodeIDToAllVifs_ord_keys:
  "distinct (map fst (podNodeIDToAllVifs (convertDBInfo_ord ord rawData s)))"
  by (simp add: convertDBInfo_ord_def Let_def distinct_podnodes_ord newIDToVifs_def)

lemma podNodeIDToAllVifs_ord_sets:
  assumes "sets_distinct (podIDToVifs rawData)" and "sets_distinct (podNodeIDToVifs rawData)"
  shows "sets_distinct (podNodeIDToAllVifs (convertDBInfo_ord ord rawData s))"
  by (simp add: convertDBInfo_ord_def Let_def newIDToVifs_def
      sets_distinct_podnodes_ord [OF assms sets_distinct_Nil])

lemma vifs_at_vm_podnode_vifs_ord:
  assumes "valid_order ord"
  shows "vifs_at (vm_podnode_vifs_ord ord pm entry m) k =
     (if k = snd entry then vifs_at m k \<union> vifs_at pm (fst entry) else vifs_at m k)"
proof (cases entry)
  case (Pair n v)
  show ?thesis
    by (cases "map_of pm n")
      (simp_all add: Pair vm_podnode_vifs_ord_def vifs_at_add_ord [OF assms] vifs_at_Some
        vifs_at_None)
qed

lemma sets_distinct_vm_podnode_vifs_ord:
  assumes "sets_distinct pm" and "sets_distinct m"
  shows "sets_distinct (vm_podnode_vifs_ord ord pm entry m)"
proof (cases entry)
  case (Pair n v)
  show ?thesis
  proof (cases "map_of pm n")
    case None
    with assms(2) show ?thesis
      by (simp add: Pair vm_podnode_vifs_ord_def)
  next
    case (Some allVifs)
    with assms(1) have "distinct allVifs"
      by (rule sets_distinct_lookup)
    with assms(2) Some show ?thesis
      by (simp add: Pair vm_podnode_vifs_ord_def sets_distinct_add_ord)
  qed
qed

lemma vifs_at_owners_ord:
  assumes "valid_order ord"
  shows "vifs_at (fold (vm_podnode_vifs_ord ord pm) owners m) k =
     vifs_at m k \<union> (\<Union>n \<in> fst ` set (filter (\<lambda>entry. snd entry = k) owners). vifs_at pm n)"
  by (induction owners arbitrary: m) (auto simp add: vifs_at_vm_podnode_vifs_ord [OF assms])

lemma sets_distinct_owners_ord:
  assumes "sets_distinct pm"
  shows "sets_distinct m \<Longrightarrow> sets_distinct (fold (vm_podnode_vifs_ord ord pm) owners m)"
  by (induction owners arbitrary: m) (simp_all add: sets_distinct_vm_podnode_vifs_ord [OF assms])

lemma vmIDToPodNodeAllVifs_ord_closure:
  assumes "valid_order ord"
  shows "vifs_at (vmIDToPodNodeAllVifs (convertDBInfo_ord ord rawData s)) v = vm_closure rawData v"
proof -
  have pm: "vifs_at (fold (podnode_vifs_ord ord rawData) (visit ord (Site 188 []) (idToPodNode rawData))
        newIDToVifs) n = podnode_closure rawData n" for n
    using podNodeIDToAllVifs_ord_closure [OF assms, of rawData s n]
    by (simp add: convertDBInfo_ord_def Let_def)
  show ?thesis
    by (simp add: convertDBInfo_ord_def Let_def vifs_at_owners_ord [OF assms] pm vifs_at_new
        vm_closure_def set_visit [OF assms])
qed

lemma vmIDToPodNodeAllVifs_ord_sets:
  assumes "sets_distinct (podIDToVifs rawData)" and "sets_distinct (podNodeIDToVifs rawData)"
  shows "sets_distinct (vmIDToPodNodeAllVifs (convertDBInfo_ord ord rawData s))"
proof -
  have "sets_distinct (fold (podnode_vifs_ord ord rawData)
      (visit ord (Site 188 []) (idToPodNode rawData)) newIDToVifs)"
    using podNodeIDToAllVifs_ord_sets [OF assms, of ord s]
    by (simp add: convertDBInfo_ord_def Let_def)
  from sets_distinct_owners_ord [OF this sets_distinct_Nil] show ?thesis
    by (simp add: convertDBInfo_ord_def Let_def newIDToVifs_def)
qed

lemma members_closure: "sets_distinct m \<Longrightarrow> members m k = mset_set (vifs_at m k)"
proof (cases "map_of m k")
  case None
  then show ?thesis
    by (simp add: members_def vifs_at_def)
next
  case (Some xs)
  assume "sets_distinct m"
  then have "distinct xs"
    using Some by (rule sets_distinct_lookup)
  then have "mset_set (set xs) = mset xs"
    by (rule mset_set_set)
  with Some show ?thesis
    by (simp add: members_def vifs_at_def)
qed

subsection \<open>The indices, whatever the order\<close>

lemma map_of_index_visit:
  assumes "valid_order ord" and "distinct (map fst m)"
  shows "map_of (fold (\<lambda>(k, v). AList.update k (f k v)) (visit ord site m) []) k =
     map_option (f k) (map_of m k)"
proof -
  from assms have d: "distinct (map fst (visit ord site m))"
    by (simp add: distinct_keys_visit)
  show ?thesis
    by (simp add: map_of_fold_update [OF d] map_of_visit [OF assms] split: option.split)
qed

lemma found_index_visit:
  assumes "valid_order ord" and "distinct (map fst m)"
  shows "found (fold (\<lambda>(k, v). AList.update k (f k v)) (visit ord site m) []) k =
     (case map_of m k of Some v \<Rightarrow> f k v | None \<Rightarrow> [])"
  by (simp add: found_def map_of_index_visit [OF assms] split: option.split)

lemma entries_add_vifs_of_ord:
  "valid_order ord \<Longrightarrow>
     entries (add_vifs_of_ord ord site m k networkMacs) n =
       entries networkMacs n + indexed n (members m k)"
  by (simp add: add_vifs_of_ord_def members_def entries_fold_add mset_visit indexed_def
      split: option.split)

lemma indexed_add: "indexed n (A + B) = indexed n A + indexed n B"
  by (simp add: indexed_def)

lemma indexed_empty: "indexed n {#} = {#}"
  by (simp add: indexed_def)

lemma hostIDToSegments_ord:
  "hostIDToSegments (generateBaseSegments_ord ord rawData s) =
     fold (\<lambda>(hostID, vifs).
             AList.update hostID
               (fold NetworkMacs_add (visit ord (Site 239 [IntKey hostID]) vifs) newNetworkMacs))
          (visit ord (Site 237 []) (hostIDToVifs rawData)) []"
  by (simp add: generateBaseSegments_ord_def generateGatewayHostSegments_ord_def
      generateBaseSegmentsFromDB_ord_def Let_def newIDToNetworkMacs_def)

lemma gatewayHostIDToSegments_ord:
  "gatewayHostIDToSegments (generateBaseSegments_ord ord rawData s) =
     fold (\<lambda>(hostID, vifs).
             AList.update hostID
               (fold NetworkMacs_add (visit ord (Site 247 [IntKey hostID]) vifs) newNetworkMacs))
          (visit ord (Site 245 []) (gatewayHostIDToVifs rawData)) []"
  by (simp add: generateBaseSegments_ord_def generateGatewayHostSegments_ord_def
      generateBaseSegmentsFromDB_ord_def Let_def newIDToNetworkMacs_def)

lemma vmIDToSegments_ord:
  "vmIDToSegments (generateBaseSegments_ord ord rawData s) =
     fold (\<lambda>(vmID, vifs).
             AList.update vmID
               (add_vifs_of_ord ord (Site 259 [IntKey vmID])
                  (vmIDToPodNodeAllVifs (convertDBInfo_ord ord rawData s)) vmID
                  (fold NetworkMacs_add (visit ord (Site 255 [IntKey vmID]) vifs) newNetworkMacs)))
          (visit ord (Site 253 []) (vmIDToVifs rawData)) []"
  by (simp add: generateBaseSegments_ord_def generateGatewayHostSegments_ord_def
      generateBaseSegmentsFromDB_ord_def Let_def newIDToNetworkMacs_def convertDBInfo_ord_def)

lemma podNodeIDToSegments_ord:
  "podNodeIDToSegments (generateBaseSegments_ord ord rawData s) =
     fold (\<lambda>(podNodeID, vifs).
             AList.update podNodeID
               (fold NetworkMacs_add (visit ord (Site 268 [IntKey podNodeID]) vifs) newNetworkMacs))
          (visit ord (Site 266 []) (podNodeIDToAllVifs (convertDBInfo_ord ord rawData s))) []"
  by (simp add: generateBaseSegments_ord_def generateGatewayHostSegments_ord_def
      generateBaseSegmentsFromDB_ord_def Let_def newIDToNetworkMacs_def convertDBInfo_ord_def)

lemma launchServerToSegments_ord:
  "launchServerToSegments (generateBaseSegments_ord ord rawData s) =
     fold (\<lambda>(server, vmids).
             AList.update server
               (server_networkMacs_ord ord rawData (convertDBInfo_ord ord rawData s) server vmids))
          (visit ord (Site 218 []) (serverToVmIDs rawData)) []"
  by (simp add: generateBaseSegments_ord_def generateGatewayHostSegments_ord_def
      generateBaseSegmentsFromDB_ord_def Let_def newServerToNetworkMacs_def)

lemma allGatewayHostSegments_ord:
  "allGatewayHostSegments (generateBaseSegments_ord ord rawData s) =
     fold (\<lambda>(hostID, hostSegments).
             fold gateway_segment (visit ord (Site 284 [IntKey hostID]) hostSegments))
          (visit ord (Site 283 []) (gatewayHostIDToSegments (generateBaseSegments_ord ord rawData s)))
          []"
  by (simp add: generateBaseSegments_ord_def generateGatewayHostSegments_ord_def)

lemma host_entries_ord:
  assumes "valid_order ord" and "distinct (map fst (hostIDToVifs rawData))"
  shows "entries (found (hostIDToSegments (generateBaseSegments_ord ord rawData s)) k) n =
     indexed n (members (hostIDToVifs rawData) k)"
  by (cases "map_of (hostIDToVifs rawData) k")
    (simp_all add: hostIDToSegments_ord found_index_visit [OF assms] entries_fold_add entries_new
      entries_Nil members_def indexed_empty mset_visit [OF assms(1)])

lemma vm_entries_ord:
  assumes "valid_order ord" and "distinct (map fst (vmIDToVifs rawData))"
    and "sets_distinct (podIDToVifs rawData)" and "sets_distinct (podNodeIDToVifs rawData)"
  shows "entries (found (vmIDToSegments (generateBaseSegments_ord ord rawData s)) k) n =
     (if map_of (vmIDToVifs rawData) k = None then {#}
      else indexed n (members (vmIDToVifs rawData) k) + indexed n (mset_set (vm_closure rawData k)))"
proof (cases "map_of (vmIDToVifs rawData) k")
  case None
  then show ?thesis
    by (simp add: vmIDToSegments_ord found_index_visit [OF assms(1,2)] entries_Nil)
next
  case (Some vifs)
  have "members (vmIDToPodNodeAllVifs (convertDBInfo_ord ord rawData s)) k =
      mset_set (vm_closure rawData k)"
    by (simp add: members_closure [OF vmIDToPodNodeAllVifs_ord_sets [OF assms(3,4)]]
        vmIDToPodNodeAllVifs_ord_closure [OF assms(1)])
  with Some show ?thesis
    by (simp add: vmIDToSegments_ord found_index_visit [OF assms(1,2)]
        entries_add_vifs_of_ord [OF assms(1)] entries_fold_add entries_new members_def
        mset_visit [OF assms(1)])
qed

lemma podnode_entries_ord:
  assumes "valid_order ord"
    and "sets_distinct (podIDToVifs rawData)" and "sets_distinct (podNodeIDToVifs rawData)"
  shows "entries (found (podNodeIDToSegments (generateBaseSegments_ord ord rawData s)) k) n =
     indexed n (mset_set (podnode_closure rawData k))"
proof -
  let ?pm = "podNodeIDToAllVifs (convertDBInfo_ord ord rawData s)"
  have m: "members ?pm k = mset_set (podnode_closure rawData k)"
    by (simp add: members_closure [OF podNodeIDToAllVifs_ord_sets [OF assms(2,3)]]
        podNodeIDToAllVifs_ord_closure [OF assms(1)])
  have "entries (found (podNodeIDToSegments (generateBaseSegments_ord ord rawData s)) k) n =
      indexed n (members ?pm k)"
    by (cases "map_of ?pm k")
      (simp_all add: podNodeIDToSegments_ord
        found_index_visit [OF assms(1) podNodeIDToAllVifs_ord_keys] entries_fold_add entries_new
        entries_Nil members_def indexed_empty mset_visit [OF assms(1)])
  with m show ?thesis
    by simp
qed

lemma entries_server_fold:
  assumes "valid_order ord"
  shows "entries (fold (\<lambda>id' netWorkMacs.
             add_vifs_of_ord ord (Site 229 [StrKey server, IntKey id']) am id'
               (add_vifs_of_ord ord (Site 223 [StrKey server, IntKey id']) vm id' netWorkMacs))
          vmids networkMacs) n =
     entries networkMacs n +
       (\<Sum>id' \<in># mset vmids. indexed n (members vm id') + indexed n (members am id'))"
  by (induction vmids arbitrary: networkMacs)
    (simp_all add: entries_add_vifs_of_ord [OF assms] ac_simps)

lemma server_entries_ord:
  assumes "valid_order ord" and "distinct (map fst (serverToVmIDs rawData))"
    and "sets_distinct (podIDToVifs rawData)" and "sets_distinct (podNodeIDToVifs rawData)"
  shows "entries (found (launchServerToSegments (generateBaseSegments_ord ord rawData s)) k) n =
     (case map_of (serverToVmIDs rawData) k of
        None \<Rightarrow> {#}
      | Some vmids \<Rightarrow>
          (\<Sum>id' \<in># mset vmids.
             indexed n (members (vmIDToVifs rawData) id') + indexed n (mset_set (vm_closure rawData id'))))"
proof (cases "map_of (serverToVmIDs rawData) k")
  case None
  then show ?thesis
    by (simp add: launchServerToSegments_ord found_index_visit [OF assms(1,2)] entries_Nil)
next
  case (Some vmids)
  have m: "members (vmIDToPodNodeAllVifs (convertDBInfo_ord ord rawData s)) id' =
      mset_set (vm_closure rawData id')" for id'
    by (simp add: members_closure [OF vmIDToPodNodeAllVifs_ord_sets [OF assms(3,4)]]
        vmIDToPodNodeAllVifs_ord_closure [OF assms(1)])
  from Some show ?thesis
    by (simp add: launchServerToSegments_ord found_index_visit [OF assms(1,2)]
        server_networkMacs_ord_def entries_server_fold [OF assms(1)] entries_new m
        mset_visit [OF assms(1)])
qed

subsection \<open>The indices are well-formed, whatever the order\<close>

lemma networkMacs_ok_add_vifs_of_ord:
  "networkMacs_ok n \<Longrightarrow> networkMacs_ok (add_vifs_of_ord ord site m k n)"
  by (simp add: add_vifs_of_ord_def networkMacs_ok_fold_add split: option.split)

lemma networkMacs_ok_server_ord: "networkMacs_ok (server_networkMacs_ord ord rawData s server vmids)"
proof -
  have "networkMacs_ok (fold (\<lambda>id' netWorkMacs.
             add_vifs_of_ord ord (Site 229 [StrKey server, IntKey id']) (vmIDToPodNodeAllVifs s) id'
               (add_vifs_of_ord ord (Site 223 [StrKey server, IntKey id']) (vmIDToVifs rawData) id'
                  netWorkMacs))
          ids n)" if "networkMacs_ok n" for n ids
    using that by (induction ids arbitrary: n) (simp_all add: networkMacs_ok_add_vifs_of_ord)
  then show ?thesis
    by (simp add: server_networkMacs_ord_def networkMacs_ok_new)
qed

lemma indices_ok_ord:
  "index_ok (launchServerToSegments (generateBaseSegments_ord ord rawData s))"
  "index_ok (hostIDToSegments (generateBaseSegments_ord ord rawData s))"
  "index_ok (gatewayHostIDToSegments (generateBaseSegments_ord ord rawData s))"
  "index_ok (vmIDToSegments (generateBaseSegments_ord ord rawData s))"
  "index_ok (podNodeIDToSegments (generateBaseSegments_ord ord rawData s))"
proof -
  have new: "networkMacs_ok (fold NetworkMacs_add vifs newNetworkMacs)" for vifs
    by (simp add: networkMacs_ok_fold_add networkMacs_ok_new)
  show "index_ok (launchServerToSegments (generateBaseSegments_ord ord rawData s))"
    unfolding launchServerToSegments_ord
    by (rule index_ok_fold) (simp_all add: networkMacs_ok_server_ord index_ok_Nil)
  show "index_ok (hostIDToSegments (generateBaseSegments_ord ord rawData s))"
    unfolding hostIDToSegments_ord
    by (rule index_ok_fold) (simp_all add: new index_ok_Nil)
  show "index_ok (gatewayHostIDToSegments (generateBaseSegments_ord ord rawData s))"
    unfolding gatewayHostIDToSegments_ord
    by (rule index_ok_fold) (simp_all add: new index_ok_Nil)
  show "index_ok (vmIDToSegments (generateBaseSegments_ord ord rawData s))"
    unfolding vmIDToSegments_ord
    by (rule index_ok_fold) (simp_all add: new networkMacs_ok_add_vifs_of_ord index_ok_Nil)
  show "index_ok (podNodeIDToSegments (generateBaseSegments_ord ord rawData s))"
    unfolding podNodeIDToSegments_ord
    by (rule index_ok_fold) (simp_all add: new index_ok_Nil)
qed

subsection \<open>Two builds hold the same groups\<close>

lemma wf_sets_pods: "wf_sets rawData \<Longrightarrow> sets_distinct (podIDToVifs rawData)"
  by (simp add: wf_sets_def sets_distinct_def)

lemma wf_sets_podnodes: "wf_sets rawData \<Longrightarrow> sets_distinct (podNodeIDToVifs rawData)"
  by (simp add: wf_sets_def sets_distinct_def)

lemma groups_build:
  assumes "wf_PlatformRawData rawData" and "wf_sets rawData"
    and "valid_order ord" and "valid_order ord'"
  shows "groups (found (launchServerToSegments (generateBaseSegments_ord ord rawData s)) server) =
         groups (found (launchServerToSegments (generateBaseSegments_ord ord' rawData s')) server)"
    and "groups (found (hostIDToSegments (generateBaseSegments_ord ord rawData s)) k) =
         groups (found (hostIDToSegments (generateBaseSegments_ord ord' rawData s')) k)"
    and "groups (found (vmIDToSegments (generateBaseSegments_ord ord rawData s)) k) =
         groups (found (vmIDToSegments (generateBaseSegments_ord ord' rawData s')) k)"
    and "groups (found (podNodeIDToSegments (generateBaseSegments_ord ord rawData s)) k) =
         groups (found (podNodeIDToSegments (generateBaseSegments_ord ord' rawData s')) k)"
proof -
  from assms(1) have d: "distinct (map fst (serverToVmIDs rawData))"
    "distinct (map fst (hostIDToVifs rawData))" "distinct (map fst (vmIDToVifs rawData))"
    by (simp_all add: wf_PlatformRawData_def)
  note p = wf_sets_pods [OF assms(2)] and n = wf_sets_podnodes [OF assms(2)]
  show "groups (found (launchServerToSegments (generateBaseSegments_ord ord rawData s)) server) =
        groups (found (launchServerToSegments (generateBaseSegments_ord ord' rawData s')) server)"
    by (rule groups_cong)
      (simp_all add: found_ok indices_ok_ord server_entries_ord [OF assms(3) d(1) p n]
        server_entries_ord [OF assms(4) d(1) p n])
  show "groups (found (hostIDToSegments (generateBaseSegments_ord ord rawData s)) k) =
        groups (found (hostIDToSegments (generateBaseSegments_ord ord' rawData s')) k)"
    by (rule groups_cong)
      (simp_all add: found_ok indices_ok_ord host_entries_ord [OF assms(3) d(2)]
        host_entries_ord [OF assms(4) d(2)])
  show "groups (found (vmIDToSegments (generateBaseSegments_ord ord rawData s)) k) =
        groups (found (vmIDToSegments (generateBaseSegments_ord ord' rawData s')) k)"
    by (rule groups_cong)
      (simp_all add: found_ok indices_ok_ord vm_entries_ord [OF assms(3) d(3) p n]
        vm_entries_ord [OF assms(4) d(3) p n])
  show "groups (found (podNodeIDToSegments (generateBaseSegments_ord ord rawData s)) k) =
        groups (found (podNodeIDToSegments (generateBaseSegments_ord ord' rawData s')) k)"
    by (rule groups_cong)
      (simp_all add: found_ok indices_ok_ord podnode_entries_ord [OF assms(3) p n]
        podnode_entries_ord [OF assms(4) p n])
qed

subsection \<open>The queries, whatever the order\<close>

lemma visit_Nil: "valid_order ord \<Longrightarrow> visit ord site [] = []"
  using mset_visit [of ord site "[]"] by simp

lemma ids_of_groups: "ids_of networkMacs = ID ` set_mset (\<Sum>g \<in># groups networkMacs. snd g)"
proof -
  have "set (macIDs_of networkMacs) = set_mset (mset (macIDs_of networkMacs))"
    by simp
  then show ?thesis
    unfolding ids_of_macIDs_of mset_macIDs_of by simp
qed

lemma ids_of_visit: "valid_order ord \<Longrightarrow> ids_of (visit ord site networkMacs) = ids_of networkMacs"
  by (simp add: ids_of_groups groups_visit)

lemma getSegmentsByID_ord_eq:
  "getSegmentsByID_ord ord t k s =
     (case map_of t k of
        None \<Rightarrow> ([], s)
      | Some networkMacs \<Rightarrow>
          (map network_segment (visit ord (Site 69 []) networkMacs),
           s\<lparr>vtapUsedVInterfaceIDs :=
               vtapUsedVInterfaceIDs s \<union> ids_of (visit ord (Site 69 []) networkMacs)\<rparr>))"
  by (simp add: getSegmentsByID_ord_def fold_segment_of_network split: option.split)

lemma getSegmentsByServer_ord_eq:
  "getSegmentsByServer_ord ord t k s =
     (case map_of t k of
        None \<Rightarrow> ([], s)
      | Some networkMacs \<Rightarrow>
          (map network_segment (visit ord (Site 98 []) networkMacs),
           s\<lparr>vtapUsedVInterfaceIDs :=
               vtapUsedVInterfaceIDs s \<union> ids_of (visit ord (Site 98 []) networkMacs)\<rparr>))"
  by (simp add: getSegmentsByServer_ord_def fold_segment_of_network split: option.split)

lemma groups_Nil: "groups [] = {#}"
  by (simp add: groups_def)

lemma content_Nil: "content [] = {#}"
  by (simp add: content_def)

lemma content_getSegmentsByID_ord:
  "valid_order ord \<Longrightarrow>
     content (fst (getSegmentsByID_ord ord t k s)) =
       image_mset (\<lambda>g. (uint32 (fst g), image_mset on_wire (snd g))) (groups (found t k))"
  by (simp add: getSegmentsByID_ord_eq found_def content_network_segments groups_visit
      groups_Nil content_Nil split: option.split)

lemma content_getSegmentsByServer_ord:
  "valid_order ord \<Longrightarrow>
     content (fst (getSegmentsByServer_ord ord t k s)) =
       image_mset (\<lambda>g. (uint32 (fst g), image_mset on_wire (snd g))) (groups (found t k))"
  by (simp add: getSegmentsByServer_ord_eq found_def content_network_segments groups_visit
      groups_Nil content_Nil split: option.split)

lemma GetTypeVMSegments_ord_eq:
  assumes "valid_order ord"
  shows "GetTypeVMSegments_ord ord launchServer hostID s =
     ([\<lparr>seg_Id = 1,
        seg_Mac = map Mac (macIDs_of (visit ord (Site 346 []) (found (launchServerToSegments s) launchServer))
                           @ macIDs_of (visit ord (Site 355 []) (found (hostIDToSegments s) hostID))),
        seg_InterfaceId = map (\<lambda>macID. uint32 (ID macID))
                            (macIDs_of (visit ord (Site 346 []) (found (launchServerToSegments s) launchServer))
                             @ macIDs_of (visit ord (Site 355 []) (found (hostIDToSegments s) hostID)))\<rparr>],
      s\<lparr>vtapUsedVInterfaceIDs :=
          vtapUsedVInterfaceIDs s \<union>
          (index_ids (launchServerToSegments s) launchServer \<union> index_ids (hostIDToSegments s) hostID)\<rparr>)"
  by (simp add: GetTypeVMSegments_ord_def claim_networkMacs_eq found_def index_ids_def uint32_1
      visit_Nil [OF assms] ids_of_visit [OF assms] macIDs_of_def ids_of_Nil Un_assoc
      split: option.split)

lemma content_GetTypeVMSegments_ord:
  assumes "valid_order ord"
  shows "content (fst (GetTypeVMSegments_ord ord launchServer hostID s)) =
     {#(1, image_mset on_wire
             ((\<Sum>g \<in># groups (found (launchServerToSegments s) launchServer). snd g) +
              (\<Sum>g \<in># groups (found (hostIDToSegments s) hostID). snd g)))#}"
proof -
  have "zip (map Mac macIDs) (map (\<lambda>macID. uint32 (ID macID)) macIDs) = map on_wire macIDs"
    for macIDs
    by (simp add: zip_map_map zip_same_conv_map on_wire_def)
  then show ?thesis
    by (simp add: GetTypeVMSegments_ord_eq [OF assms] content_def seg_content_def
        mset_macIDs_of groups_visit [OF assms])
qed

lemma run_query_ord_state:
  "valid_order ord \<Longrightarrow> snd (run_query_ord ord q s) = snd (run_query q s)"
  by (cases q)
    (simp_all add: getSegmentsByID_ord_eq getSegmentsByServer_ord_eq GetTypeVMSegments_ord_eq
      GetLaunchServerSegments_def GetHostIDSegments_def GetVMIDSegments_def
      GetPodNodeSegments_def getSegmentsByID_eq getSegmentsByServer_eq GetTypeVMSegments_eq
      ids_of_visit split: option.split)

lemma run_queries_ord_state:
  "\<forall>oq \<in> set oqs. valid_order (fst oq) \<Longrightarrow> run_queries_ord oqs s = run_queries (map snd oqs) s"
proof (induction oqs arbitrary: s)
  case Nil
  show ?case by (simp add: run_queries_ord_def run_queries_def)
next
  case (Cons oq oqs)
  obtain ord q where oq: "oq = (ord, q)" by (cases oq)
  from Cons.prems have v: "valid_order ord" and rest: "\<forall>oq \<in> set oqs. valid_order (fst oq)"
    by (simp_all add: oq)
  have "run_queries_ord (oq # oqs) s = run_queries_ord oqs (snd (run_query_ord ord q s))"
    by (simp add: run_queries_ord_def oq)
  moreover have "run_queries (map snd (oq # oqs)) s = run_queries (map snd oqs) (snd (run_query q s))"
    by (simp add: run_queries_def oq)
  ultimately show ?case
    by (simp add: Cons.IH [OF rest] run_query_ord_state [OF v])
qed

lemma query_cong:
  assumes "valid_order ord" and "valid_order ord'"
    and "\<And>k. groups (found (launchServerToSegments s) k) = groups (found (launchServerToSegments s') k)"
    and "\<And>k. groups (found (hostIDToSegments s) k) = groups (found (hostIDToSegments s') k)"
    and "\<And>k. groups (found (vmIDToSegments s) k) = groups (found (vmIDToSegments s') k)"
    and "\<And>k. groups (found (podNodeIDToSegments s) k) = groups (found (podNodeIDToSegments s') k)"
  shows "content (fst (run_query_ord ord q s)) = content (fst (run_query_ord ord' q s'))"
    and "query_ids q s = query_ids q s'"
proof -
  show "content (fst (run_query_ord ord q s)) = content (fst (run_query_ord ord' q s'))"
    by (cases q)
      (simp_all add: content_getSegmentsByID_ord content_getSegmentsByServer_ord
        content_GetTypeVMSegments_ord assms)
  show "query_ids q s = query_ids q s'"
    by (cases q) (simp_all add: index_ids_found ids_of_groups assms(3-6))
qed

subsection \<open>The gateway list, whatever the order\<close>

lemma content_append: "content (xs @ ys) = content xs + content ys"
  by (simp add: content_def)

lemma fold_gateway_hosts_ord:
  "fold (\<lambda>(hostID, hostSegments).
           fold gateway_segment (visit ord (Site 284 [IntKey hostID]) hostSegments)) t segments =
     segments @ map gateway_view
       (concat (map (\<lambda>entry. visit ord (Site 284 [IntKey (fst entry)]) (snd entry)) t))"
  by (induction t arbitrary: segments) (auto simp add: fold_gateway_segment)

lemma content_gateway_hosts:
  assumes "valid_order ord"
  shows "content (map gateway_view
       (concat (map (\<lambda>entry. visit ord (Site 284 [IntKey (fst entry)]) (snd entry)) t))) =
     (\<Sum>entry \<in># mset t. content (map gateway_view (snd entry)))"
  by (induction t)
    (simp_all add: content_Nil content_append content_gateway_views groups_visit [OF assms])

lemma sum_image_snd:
  "(\<Sum>entry \<in># M. a (snd entry)) = (\<Sum>p \<in># image_mset (\<lambda>entry. (fst entry, a (snd entry))) M. snd p)"
  by (simp add: multiset.map_comp comp_def)

lemma gateway_content_ord:
  assumes "distinct (map fst (gatewayHostIDToVifs rawData))"
    and "valid_order ord" and "valid_order ord'"
  shows "content (allGatewayHostSegments (generateBaseSegments_ord ord rawData s)) =
         content (allGatewayHostSegments (generateBaseSegments_ord ord' rawData s'))"
proof -
  let ?a = "\<lambda>networkMacs. content (map gateway_view networkMacs)"
  let ?f = "\<lambda>ord (hostID :: go_int) vifs.
      fold NetworkMacs_add (visit ord (Site 247 [IntKey hostID]) vifs) newNetworkMacs"
  let ?t = "\<lambda>ord. gatewayHostIDToSegments (generateBaseSegments_ord ord rawData s)"
  let ?t' = "gatewayHostIDToSegments (generateBaseSegments_ord ord' rawData s')"
  have keys: "distinct (map fst (gatewayHostIDToSegments (generateBaseSegments_ord ord1 rawData s1)))"
    for ord1 s1
    unfolding gatewayHostIDToSegments_ord by (rule distinct_fold_update) simp
  have ok: "networkMacs_ok (?f ord1 k vifs)" for ord1 k vifs
    by (simp add: networkMacs_ok_fold_add networkMacs_ok_new)
  have same: "?a (?f ord k vifs) = ?a (?f ord' k vifs)" for k vifs
  proof -
    have "groups (?f ord k vifs) = groups (?f ord' k vifs)"
      by (rule groups_cong)
        (simp_all add: ok entries_fold_add entries_new mset_visit assms(2,3))
    then show ?thesis
      by (simp add: content_gateway_views)
  qed
  have look: "map_of (gatewayHostIDToSegments (generateBaseSegments_ord ord1 rawData s1)) k =
      map_option (?f ord1 k) (map_of (gatewayHostIDToVifs rawData) k)" if "valid_order ord1"
    for ord1 s1 k
    unfolding gatewayHostIDToSegments_ord by (rule map_of_index_visit [OF that assms(1)])
  have "map_option ?a (map_of (?t ord) k) = map_option ?a (map_of ?t' k)" for k
    by (cases "map_of (gatewayHostIDToVifs rawData) k")
      (simp_all add: look [OF assms(2)] look [OF assms(3)] same)
  from alist_mset_cong [OF keys keys this]
  have "image_mset (\<lambda>entry. (fst entry, ?a (snd entry))) (mset (?t ord)) =
      image_mset (\<lambda>entry. (fst entry, ?a (snd entry))) (mset ?t')" .
  then have "(\<Sum>entry \<in># mset (?t ord). ?a (snd entry)) = (\<Sum>entry \<in># mset ?t'. ?a (snd entry))"
    unfolding sum_image_snd [of ?a] by simp
  then show ?thesis
    by (simp add: allGatewayHostSegments_ord fold_gateway_hosts_ord
        content_gateway_hosts [OF assms(2)] content_gateway_hosts [OF assms(3)]
        mset_visit [OF assms(2)] mset_visit [OF assms(3)])
qed

subsection \<open>The order of the model is one of them\<close>

lemma IDToVifs_add_forward: "IDToVifs_add_ord forward site k vifs m = IDToVifs_add k vifs m"
  by (simp add: IDToVifs_add_ord_def IDToVifs_add_def visit_forward split: option.split)

lemma convertDBInfo_forward: "convertDBInfo_ord forward rawData s = convertDBInfo rawData s"
proof -
  have p: "podnode_vifs_ord forward rawData entry m = podnode_vifs rawData (snd entry) m" for entry m
    by (simp add: podnode_vifs_ord_def podnode_vifs_def visit_forward IDToVifs_add_forward
        cong: option.case_cong)
  have v: "vm_podnode_vifs_ord forward pm = vm_podnode_vifs pm" for pm
    by (simp add: fun_eq_iff vm_podnode_vifs_ord_def vm_podnode_vifs_def IDToVifs_add_forward
        cong: option.case_cong)
  have "fold (podnode_vifs_ord forward rawData) xs m =
      fold (\<lambda>entry. podnode_vifs rawData (snd entry)) xs m" for xs m
    by (induction xs arbitrary: m) (simp_all add: p)
  then show ?thesis
    by (simp add: convertDBInfo_ord_def convertDBInfo_def visit_forward v)
qed

lemma generateBaseSegments_forward:
  "generateBaseSegments_ord forward rawData s = generateBaseSegments rawData s"
proof -
  have a: "add_vifs_of_ord forward site m k n = add_vifs_of m k n" for site m k n
    by (simp add: add_vifs_of_ord_def add_vifs_of_def visit_forward split: option.split)
  have s: "server_networkMacs_ord forward rawData s1 server vmids =
      server_networkMacs rawData s1 vmids" for s1 server vmids
    by (simp add: server_networkMacs_ord_def server_networkMacs_def visit_forward a)
  have b: "generateBaseSegmentsFromDB_ord forward rawData s1 = generateBaseSegmentsFromDB rawData s1"
    for s1
    by (simp add: generateBaseSegmentsFromDB_ord_def generateBaseSegmentsFromDB_def
        visit_forward a s)
  have g: "generateGatewayHostSegments_ord forward s1 = generateGatewayHostSegments s1" for s1
    by (simp add: generateGatewayHostSegments_ord_def generateGatewayHostSegments_def visit_forward)
  show ?thesis
    by (simp add: generateBaseSegments_ord_def generateBaseSegments_def convertDBInfo_forward b g)
qed

lemma run_query_forward: "run_query_ord forward q s = run_query q s"
  by (cases q)
    (simp_all add: getSegmentsByID_ord_def getSegmentsByID_def getSegmentsByServer_ord_def
      getSegmentsByServer_def GetTypeVMSegments_ord_def GetTypeVMSegments_def visit_forward
      GetLaunchServerSegments_def GetHostIDSegments_def GetVMIDSegments_def GetPodNodeSegments_def
      cong: option.case_cong)

subsection \<open>The reset, and a VM without an entry\<close>

lemma found_clear:
  "launchServerToSegments (ClearVTapUsedVInterfaceIDs s) = launchServerToSegments s"
  "hostIDToSegments (ClearVTapUsedVInterfaceIDs s) = hostIDToSegments s"
  "vmIDToSegments (ClearVTapUsedVInterfaceIDs s) = vmIDToSegments s"
  "podNodeIDToSegments (ClearVTapUsedVInterfaceIDs s) = podNodeIDToSegments s"
  "allGatewayHostSegments (ClearVTapUsedVInterfaceIDs s) = allGatewayHostSegments s"
  "vtapUsedVInterfaceIDs (ClearVTapUsedVInterfaceIDs s) = {}"
  by (simp_all add: ClearVTapUsedVInterfaceIDs_def)

lemma byVMID_without_entry:
  assumes "valid_order ord" and "distinct (map fst (vmIDToVifs rawData))"
    and "map_of (vmIDToVifs rawData) vmID = None"
  shows "run_query_ord ord' (ByVMID vmID) (generateBaseSegments_ord ord rawData s) =
     ([], generateBaseSegments_ord ord rawData s)"
proof -
  have "map_of (vmIDToSegments (generateBaseSegments_ord ord rawData s)) vmID = None"
    by (simp add: vmIDToSegments_ord map_of_index_visit [OF assms(1,2)] assms(3))
  then show ?thesis
    by (simp add: getSegmentsByID_ord_def)
qed

section \<open>The snapshots, evaluated\<close>

lemma scenario_engine_eq:
  "scenario_engine =
     \<lparr>launchServerToSegments =
        [(''H1'',
          [(10, [\<lparr>Mac = ''a2'', ID = 2\<rparr>, \<lparr>Mac = ''a6'', ID = 6\<rparr>]),
           (20, [\<lparr>Mac = ''a3'', ID = 3\<rparr>, \<lparr>Mac = ''a4'', ID = 4\<rparr>])])],
      hostIDToSegments = [(1, [(10, [\<lparr>Mac = ''a1'', ID = 1\<rparr>])])],
      gatewayHostIDToSegments = [(41, [(30, [\<lparr>Mac = ''a5'', ID = 5\<rparr>])])],
      allGatewayHostSegments = [\<lparr>seg_Id = 1, seg_Mac = [''a5''], seg_InterfaceId = [5]\<rparr>],
      vtapUsedVInterfaceIDs = {},
      notVtapUsedSegments = [],
      vmIDToSegments =
        [(11,
          [(10, [\<lparr>Mac = ''a2'', ID = 2\<rparr>]),
           (20, [\<lparr>Mac = ''a3'', ID = 3\<rparr>, \<lparr>Mac = ''a4'', ID = 4\<rparr>])]),
         (12, [(10, [\<lparr>Mac = ''a6'', ID = 6\<rparr>])])],
      bmDedicatedRemoteSegments = [],
      podNodeIDToSegments =
        [(21, [(20, [\<lparr>Mac = ''a3'', ID = 3\<rparr>, \<lparr>Mac = ''a4'', ID = 4\<rparr>])]),
         (22, [(20, [\<lparr>Mac = ''a7'', ID = 7\<rparr>])])],
      vmIDToPodNodeAllVifs = [(11, [vif ''a3'' 3 20, vif ''a4'' 4 20])],
      podNodeIDToAllVifs =
        [(21, [vif ''a3'' 3 20, vif ''a4'' 4 20]), (22, [vif ''a7'' 7 20])]\<rparr>"
  by code_simp

lemma scenario_host_claimed:
  "snd (GetHostIDSegments 1 scenario_engine) = scenario_engine\<lparr>vtapUsedVInterfaceIDs := {1}\<rparr>"
  by (simp add: GetHostIDSegments_def getSegmentsByID_eq scenario_engine_eq ids_of_def)

lemma scenario_engine_after:
  "engine_after [Rebuild scenario, ClearClaimed] = scenario_engine"
  by (simp add: engine_after_def scenario_engine_def)

lemma scenario_combined:
  "fst (GetTypeVMSegments ''H1'' 1 scenario_engine) =
     [\<lparr>seg_Id = 1, seg_Mac = [''a2'', ''a6'', ''a3'', ''a4'', ''a1''],
       seg_InterfaceId = [2, 6, 3, 4, 1]\<rparr>]"
  by (simp add: GetTypeVMSegments_eq scenario_engine_eq found_def macIDs_of_def uint32_def)

lemma scenario_all_unclaimed:
  "fst (notYetClaimedSegments scenario scenario_engine) =
     [\<lparr>seg_Id = 1, seg_Mac = [''a1'', ''a2'', ''a3'', ''a4'', ''a5'', ''a6'', ''a7''],
       seg_InterfaceId = [1, 2, 3, 4, 5, 6, 7]\<rparr>]"
  by (simp add: notYetClaimedSegments_fst unclaimed_def scenario_engine_eq scenario_def
      catch_all_def vif_def uint32_def)

lemma scenario_gateway:
  "fst (GetAllGatewayHostSegments scenario_engine) =
     [\<lparr>seg_Id = 1, seg_Mac = [''a5''], seg_InterfaceId = [5]\<rparr>]"
  by (simp add: GetAllGatewayHostSegments_def scenario_engine_eq)

lemma emptymac_engine:
  "snd (GetHostIDSegments 1 (ClearVTapUsedVInterfaceIDs (generateBaseSegments emptymac_snapshot newSegment))) =
     \<lparr>launchServerToSegments = [],
      hostIDToSegments = [(1, [(10, [\<lparr>Mac = ''a1'', ID = 1\<rparr>])])],
      gatewayHostIDToSegments = [],
      allGatewayHostSegments = [],
      vtapUsedVInterfaceIDs = {1},
      notVtapUsedSegments = [],
      vmIDToSegments = [],
      bmDedicatedRemoteSegments = [],
      podNodeIDToSegments = [],
      vmIDToPodNodeAllVifs = [],
      podNodeIDToAllVifs = []\<rparr>"
  by code_simp

lemma scenario_vm_entry:
  "query_entry (ByVMID 11) scenario_engine =
     Some [(10, [\<lparr>Mac = ''a2'', ID = 2\<rparr>]),
           (20, [\<lparr>Mac = ''a3'', ID = 3\<rparr>, \<lparr>Mac = ''a4'', ID = 4\<rparr>])]"
  by (simp add: scenario_engine_eq)

lemma scenario_vm_segments:
  "fst (run_query (ByVMID 11) scenario_engine) =
     [\<lparr>seg_Id = 10, seg_Mac = [''a2''], seg_InterfaceId = [2]\<rparr>,
      \<lparr>seg_Id = 20, seg_Mac = [''a3'', ''a4''], seg_InterfaceId = [3, 4]\<rparr>]"
  by (simp add: GetVMIDSegments_def getSegmentsByID_eq scenario_engine_eq network_segment_def
      uint32_def)

lemma wide_engine:
  "engine_after [Rebuild wide_snapshot] =
     \<lparr>launchServerToSegments = [],
      hostIDToSegments =
        [(1, [(5, [\<lparr>Mac = ''a1'', ID = 1\<rparr>]), (4294967301, [\<lparr>Mac = ''a2'', ID = 2\<rparr>])])],
      gatewayHostIDToSegments = [],
      allGatewayHostSegments = [],
      vtapUsedVInterfaceIDs = {},
      notVtapUsedSegments = [],
      vmIDToSegments = [],
      bmDedicatedRemoteSegments = [],
      podNodeIDToSegments = [],
      vmIDToPodNodeAllVifs = [],
      podNodeIDToAllVifs = []\<rparr>"
  by code_simp

lemma emptymac_engine_after:
  "engine_after [Rebuild emptymac_snapshot, ClearClaimed, Query (ByHostID 1)] =
     snd (GetHostIDSegments 1 (ClearVTapUsedVInterfaceIDs (generateBaseSegments emptymac_snapshot newSegment)))"
  by (simp add: engine_after_def)

lemma emptymac_host:
  "fst (run_query (ByHostID 1) (engine_after [Rebuild emptymac_snapshot, ClearClaimed, Query (ByHostID 1)])) =
     [\<lparr>seg_Id = 10, seg_Mac = [''a1''], seg_InterfaceId = [1]\<rparr>]"
  unfolding emptymac_engine_after emptymac_engine
  by (simp add: GetHostIDSegments_def getSegmentsByID_eq network_segment_def uint32_def)

lemma scenario_wf: "wf_PlatformRawData scenario"
  by (simp add: wf_PlatformRawData_def scenario_def)

lemma scenario_closures:
  "podnode_closure scenario 21 = {vif ''a4'' 4 20, vif ''a3'' 3 20}"
  "vm_closure scenario 11 = {vif ''a4'' 4 20, vif ''a3'' 3 20}"
  "vm_closure scenario 12 = {}"
  "vifs_at (vmIDToVifs scenario) 12 = {vif ''a6'' 6 10}"
  by (simp_all add: podnode_closure_def podnode_own_def vm_closure_def vifs_at_def scenario_def)

lemma bare_vm_engine:
  "generateBaseSegments bare_vm_snapshot newSegment =
     \<lparr>launchServerToSegments =
        [(''H1'', [(20, [\<lparr>Mac = ''a3'', ID = 3\<rparr>, \<lparr>Mac = ''a4'', ID = 4\<rparr>])])],
      hostIDToSegments = [],
      gatewayHostIDToSegments = [],
      allGatewayHostSegments = [],
      vtapUsedVInterfaceIDs = {},
      notVtapUsedSegments = [],
      vmIDToSegments = [],
      bmDedicatedRemoteSegments = [],
      podNodeIDToSegments =
        [(21, [(20, [\<lparr>Mac = ''a3'', ID = 3\<rparr>, \<lparr>Mac = ''a4'', ID = 4\<rparr>])])],
      vmIDToPodNodeAllVifs = [(11, [vif ''a3'' 3 20, vif ''a4'' 4 20])],
      podNodeIDToAllVifs = [(21, [vif ''a3'' 3 20, vif ''a4'' 4 20])]\<rparr>"
  by code_simp

lemma host_engine:
  "generateBaseSegments host_snapshot newSegment =
     \<lparr>launchServerToSegments = [],
      hostIDToSegments =
        [(1, [(10, [\<lparr>Mac = ''a1'', ID = 1\<rparr>]), (20, [\<lparr>Mac = ''a2'', ID = 2\<rparr>])])],
      gatewayHostIDToSegments = [],
      allGatewayHostSegments = [],
      vtapUsedVInterfaceIDs = {},
      notVtapUsedSegments = [],
      vmIDToSegments = [],
      bmDedicatedRemoteSegments = [],
      podNodeIDToSegments = [],
      vmIDToPodNodeAllVifs = [],
      podNodeIDToAllVifs = []\<rparr>"
  by code_simp

lemma host_snapshot_ids:
  "(\<Union>q \<in> set [ByHostID 1]. query_ids q (generateBaseSegments host_snapshot newSegment)) = {1, 2}"
  unfolding host_engine by (simp add: index_ids_def ids_of_def)

lemma host_snapshot_unclaimed: "unclaimed host_snapshot {1, 2} = [vif ''a3'' 3 10]"
  by (simp add: unclaimed_def host_snapshot_def vif_def)

lemma run_query_indices:
  assumes "launchServerToSegments s = launchServerToSegments s'"
    and "hostIDToSegments s = hostIDToSegments s'"
    and "vmIDToSegments s = vmIDToSegments s'"
    and "podNodeIDToSegments s = podNodeIDToSegments s'"
  shows "fst (run_query q s) = fst (run_query q s')"
  using assms
  by (cases q)
    (simp_all add: GetLaunchServerSegments_def GetHostIDSegments_def GetVMIDSegments_def
      GetPodNodeSegments_def getSegmentsByID_found getSegmentsByServer_found GetTypeVMSegments_eq)

lemma build_indices:
  "launchServerToSegments (generateBaseSegments rawData s) =
     launchServerToSegments (generateBaseSegments rawData s')"
  "hostIDToSegments (generateBaseSegments rawData s) = hostIDToSegments (generateBaseSegments rawData s')"
  "vmIDToSegments (generateBaseSegments rawData s) = vmIDToSegments (generateBaseSegments rawData s')"
  "podNodeIDToSegments (generateBaseSegments rawData s) =
     podNodeIDToSegments (generateBaseSegments rawData s')"
  "allGatewayHostSegments (generateBaseSegments rawData s) =
     allGatewayHostSegments (generateBaseSegments rawData s')"
  by (simp_all add: generateBaseSegments_state [of rawData s] generateBaseSegments_state [of rawData s'])

lemma query_after_build:
  "fst (run_query q (ClearVTapUsedVInterfaceIDs (generateBaseSegments rawData s))) =
   fst (run_query q (ClearVTapUsedVInterfaceIDs (generateBaseSegments rawData s')))"
  by (rule run_query_indices) (simp_all add: ClearVTapUsedVInterfaceIDs_def build_indices [of rawData s s'])

lemma scenario_sets: "wf_sets scenario"
  by (simp add: wf_sets_def scenario_def vif_def)

lemma scenario_forward_vm:
  "fst (run_query_ord forward (ByVMID 11)
          (ClearVTapUsedVInterfaceIDs
             (generateBaseSegments_ord forward scenario
                (generateBaseSegments_ord forward scenario newSegment)))) =
     [\<lparr>seg_Id = 10, seg_Mac = [''a2''], seg_InterfaceId = [2]\<rparr>,
      \<lparr>seg_Id = 20, seg_Mac = [''a3'', ''a4''], seg_InterfaceId = [3, 4]\<rparr>]"
  by code_simp

lemma scenario_backward_vm:
  "fst (run_query_ord backward (ByVMID 11)
          (ClearVTapUsedVInterfaceIDs (generateBaseSegments_ord backward scenario newSegment))) =
     [\<lparr>seg_Id = 20, seg_Mac = [''a4'', ''a3''], seg_InterfaceId = [4, 3]\<rparr>,
      \<lparr>seg_Id = 10, seg_Mac = [''a2''], seg_InterfaceId = [2]\<rparr>]"
  by code_simp

section \<open>The claims\<close>

subsection \<open>C1\<close>

text \<open>
  Claim C1. After a build, the reset of the claimed set and any sequence of queries, the
  catch-all computed over a device list is exactly the interfaces of that list whose id
  no query visited, in one segment with id 1, or the empty list when there is none. In
  particular, for a host h with the interfaces A and B (both with a MAC, so that byHostID
  claims them) and the device list A, B, C with the id of C different from theirs,
  byHostID(h) claims the ids of A and B and no other, and the catch-all after it is the
  one segment holding C.
\<close>

theorem unclaimed_interfaces_exact:
  "fst (notYetClaimedSegments rawData'
          (run_queries qs (ClearVTapUsedVInterfaceIDs (generateBaseSegments rawData s)))) =
     (if unclaimed rawData' (\<Union>q \<in> set qs. query_ids q (generateBaseSegments rawData s)) = [] then []
      else [catch_all (unclaimed rawData' (\<Union>q \<in> set qs. query_ids q (generateBaseSegments rawData s)))]) \<and>
   (distinct (map fst (hostIDToVifs rawData)) \<and> map_of (hostIDToVifs rawData) h = Some [A, B] \<and>
    vif_Mac A \<noteq> [] \<and> vif_Mac B \<noteq> [] \<and> deviceVifs rawData = [A, B, C] \<and>
    vif_ID C \<noteq> vif_ID A \<and> vif_ID C \<noteq> vif_ID B \<longrightarrow>
      vtapUsedVInterfaceIDs
        (snd (GetHostIDSegments h (ClearVTapUsedVInterfaceIDs (generateBaseSegments rawData s)))) =
        {vif_ID A, vif_ID B} \<and>
      fst (notYetClaimedSegments rawData
             (snd (GetHostIDSegments h (ClearVTapUsedVInterfaceIDs (generateBaseSegments rawData s))))) =
        [\<lparr>seg_Id = 1, seg_Mac = [vif_Mac C], seg_InterfaceId = [uint32 (vif_ID C)]\<rparr>])"
proof (intro conjI impI)
  show "fst (notYetClaimedSegments rawData'
          (run_queries qs (ClearVTapUsedVInterfaceIDs (generateBaseSegments rawData s)))) =
     (if unclaimed rawData' (\<Union>q \<in> set qs. query_ids q (generateBaseSegments rawData s)) = [] then []
      else [catch_all (unclaimed rawData' (\<Union>q \<in> set qs. query_ids q (generateBaseSegments rawData s)))])"
    by (simp add: notYetClaimedSegments_fst run_queries_state)
      (simp add: ClearVTapUsedVInterfaceIDs_def)
next
  assume h: "distinct (map fst (hostIDToVifs rawData)) \<and> map_of (hostIDToVifs rawData) h = Some [A, B] \<and>
    vif_Mac A \<noteq> [] \<and> vif_Mac B \<noteq> [] \<and> deviceVifs rawData = [A, B, C] \<and>
    vif_ID C \<noteq> vif_ID A \<and> vif_ID C \<noteq> vif_ID B"
  then have d: "distinct (map fst (hostIDToVifs rawData))"
    by simp
  from h have "vifs_at (hostIDToVifs rawData) h = {A, B}"
    by (simp add: vifs_at_Some)
  with h have ids: "index_ids (hostIDToSegments (generateBaseSegments rawData s)) h = {vif_ID A, vif_ID B}"
    by (auto simp add: host_ids [OF d])
  show used: "vtapUsedVInterfaceIDs
      (snd (GetHostIDSegments h (ClearVTapUsedVInterfaceIDs (generateBaseSegments rawData s)))) =
        {vif_ID A, vif_ID B}"
    using run_query_state [of "ByHostID h" "ClearVTapUsedVInterfaceIDs (generateBaseSegments rawData s)"] ids
    by (simp add: ClearVTapUsedVInterfaceIDs_def)
  from h have "unclaimed rawData {vif_ID A, vif_ID B} = [C]"
    by (simp add: unclaimed_def)
  then show "fst (notYetClaimedSegments rawData
             (snd (GetHostIDSegments h (ClearVTapUsedVInterfaceIDs (generateBaseSegments rawData s))))) =
        [\<lparr>seg_Id = 1, seg_Mac = [vif_Mac C], seg_InterfaceId = [uint32 (vif_ID C)]\<rparr>]"
    by (simp add: notYetClaimedSegments_fst used catch_all_def)
qed

theorem unclaimed_interfaces_exact_witness:
  "fst (notYetClaimedSegments host_snapshot
          (run_queries [ByHostID 1]
             (ClearVTapUsedVInterfaceIDs (generateBaseSegments host_snapshot newSegment)))) =
     [\<lparr>seg_Id = 1, seg_Mac = [''a3''], seg_InterfaceId = [3]\<rparr>] \<and>
   map_of (hostIDToVifs host_snapshot) 1 = Some [vif ''a1'' 1 10, vif ''a2'' 2 20] \<and>
   deviceVifs host_snapshot = [vif ''a1'' 1 10, vif ''a2'' 2 20, vif ''a3'' 3 10] \<and>
   vtapUsedVInterfaceIDs
     (snd (GetHostIDSegments 1
             (ClearVTapUsedVInterfaceIDs (generateBaseSegments host_snapshot newSegment)))) = {1, 2} \<and>
   fst (notYetClaimedSegments host_snapshot
          (snd (GetHostIDSegments 1
                  (ClearVTapUsedVInterfaceIDs (generateBaseSegments host_snapshot newSegment))))) =
     [\<lparr>seg_Id = 1, seg_Mac = [''a3''], seg_InterfaceId = [3]\<rparr>]"
proof -
  have facts: "distinct (map fst (hostIDToVifs host_snapshot))"
    "map_of (hostIDToVifs host_snapshot) 1 = Some [vif ''a1'' 1 10, vif ''a2'' 2 20]"
    "deviceVifs host_snapshot = [vif ''a1'' 1 10, vif ''a2'' 2 20, vif ''a3'' 3 10]"
    by (simp_all add: host_snapshot_def)
  have vifs: "vif_Mac (vif ''a1'' 1 10) \<noteq> []" "vif_Mac (vif ''a2'' 2 20) \<noteq> []"
    "vif_Mac (vif ''a3'' 3 10) = ''a3''" "uint32 (vif_ID (vif ''a3'' 3 10)) = 3"
    "vif_ID (vif ''a1'' 1 10) = 1" "vif_ID (vif ''a2'' 2 20) = 2" "vif_ID (vif ''a3'' 3 10) = 3"
    by (simp_all add: vif_def uint32_def)
  from unclaimed_interfaces_exact [of host_snapshot "[ByHostID 1]" host_snapshot newSegment 1
      "vif ''a1'' 1 10" "vif ''a2'' 2 20" "vif ''a3'' 3 10"]
  show ?thesis
    unfolding host_snapshot_ids host_snapshot_unclaimed
    by (simp add: facts vifs catch_all_def uint32_def)
qed

subsection \<open>C2\<close>

text \<open>
  Claim C2, as amended. After every sequence of operations, a per-entity query for a key
  of its index returns one segment per network id of the entry, the network ids of the
  entry are distinct, and the id of each segment is the network id converted to
  \<open>uint32\<close>. When every network id of the entry lies in 0 .. 2^32 - 1 the segment ids
  equal the network ids as numbers and are distinct too.
\<close>

theorem one_segment_per_network:
  "query_entry q (engine_after ops) = Some networkMacs \<longrightarrow>
     distinct (map fst networkMacs) \<and>
     length (fst (run_query q (engine_after ops))) = length networkMacs \<and>
     map seg_Id (fst (run_query q (engine_after ops))) = map uint32 (map fst networkMacs) \<and>
     ((\<forall>networkID \<in> set (map fst networkMacs). 0 \<le> sint networkID \<and> sint networkID < 2 ^ 32) \<longrightarrow>
        map (\<lambda>segment. uint (seg_Id segment)) (fst (run_query q (engine_after ops))) =
          map sint (map fst networkMacs) \<and>
        distinct (map seg_Id (fst (run_query q (engine_after ops)))))"
proof (intro impI)
  assume entry: "query_entry q (engine_after ops) = Some networkMacs"
  have segments: "fst (run_query q (engine_after ops)) = map network_segment networkMacs"
    using entry by (rule query_entry_segments)
  have "networkMacs_ok networkMacs"
    using engine_ok_engine_after entry by (rule query_entry_ok)
  then have keys: "distinct (map fst networkMacs)"
    by (simp add: networkMacs_ok_def)
  have ids: "map seg_Id (fst (run_query q (engine_after ops))) = map uint32 (map fst networkMacs)"
    unfolding segments by (rule seg_Id_network_segment)
  have numeric: "map (\<lambda>segment. uint (seg_Id segment)) (fst (run_query q (engine_after ops))) =
          map sint (map fst networkMacs) \<and>
        distinct (map seg_Id (fst (run_query q (engine_after ops))))"
    if range: "\<forall>networkID \<in> set (map fst networkMacs). 0 \<le> sint networkID \<and> sint networkID < 2 ^ 32"
  proof
    have "map (\<lambda>segment. uint (seg_Id segment)) (fst (run_query q (engine_after ops))) =
        map uint (map seg_Id (fst (run_query q (engine_after ops))))"
      by simp
    also have "\<dots> = map (\<lambda>networkID. uint (uint32 networkID)) (map fst networkMacs)"
      unfolding ids by simp
    also have "\<dots> = map sint (map fst networkMacs)"
      using range by (rule segment_ids_in_range)
    finally show "map (\<lambda>segment. uint (seg_Id segment)) (fst (run_query q (engine_after ops))) =
        map sint (map fst networkMacs)" .
    show "distinct (map seg_Id (fst (run_query q (engine_after ops))))"
      unfolding ids using range keys by (rule segment_ids_distinct)
  qed
  from keys ids numeric segments
  show "distinct (map fst networkMacs) \<and>
     length (fst (run_query q (engine_after ops))) = length networkMacs \<and>
     map seg_Id (fst (run_query q (engine_after ops))) = map uint32 (map fst networkMacs) \<and>
     ((\<forall>networkID \<in> set (map fst networkMacs). 0 \<le> sint networkID \<and> sint networkID < 2 ^ 32) \<longrightarrow>
        map (\<lambda>segment. uint (seg_Id segment)) (fst (run_query q (engine_after ops))) =
          map sint (map fst networkMacs) \<and>
        distinct (map seg_Id (fst (run_query q (engine_after ops)))))"
    by simp
qed

theorem one_segment_per_network_witness:
  "query_entry (ByVMID 11) (engine_after [Rebuild scenario, ClearClaimed]) =
     Some [(10, [\<lparr>Mac = ''a2'', ID = 2\<rparr>]),
           (20, [\<lparr>Mac = ''a3'', ID = 3\<rparr>, \<lparr>Mac = ''a4'', ID = 4\<rparr>])] \<and>
   map seg_Id (fst (run_query (ByVMID 11) (engine_after [Rebuild scenario, ClearClaimed]))) = [10, 20] \<and>
   map (\<lambda>segment. uint (seg_Id segment))
     (fst (run_query (ByVMID 11) (engine_after [Rebuild scenario, ClearClaimed]))) = [10, 20] \<and>
   distinct (map seg_Id (fst (run_query (ByVMID 11) (engine_after [Rebuild scenario, ClearClaimed]))))"
  using one_segment_per_network [of "ByVMID 11" "[Rebuild scenario, ClearClaimed]"
      "[(10, [\<lparr>Mac = ''a2'', ID = 2\<rparr>]), (20, [\<lparr>Mac = ''a3'', ID = 3\<rparr>, \<lparr>Mac = ''a4'', ID = 4\<rparr>])]"]
  unfolding scenario_engine_after scenario_vm_entry scenario_vm_segments
  by (simp add: uint32_def)

text \<open>
  The claim as stated fails outside that range: for a host with interfaces in the
  networks 5 and 2^32 + 5, byHostID returns two segments, both with id 5.
\<close>

theorem segment_id_truncated:
  "query_entry (ByHostID 1) (engine_after [Rebuild wide_snapshot]) =
     Some [(5, [\<lparr>Mac = ''a1'', ID = 1\<rparr>]), (4294967301, [\<lparr>Mac = ''a2'', ID = 2\<rparr>])] \<and>
   fst (run_query (ByHostID 1) (engine_after [Rebuild wide_snapshot])) =
     [\<lparr>seg_Id = 5, seg_Mac = [''a1''], seg_InterfaceId = [1]\<rparr>,
      \<lparr>seg_Id = 5, seg_Mac = [''a2''], seg_InterfaceId = [2]\<rparr>] \<and>
   sint (4294967301 :: go_int) = 4294967301 \<and>
   uint (5 :: uint32) = 5"
  unfolding wide_engine
  by (simp add: GetHostIDSegments_def getSegmentsByID_eq network_segment_def uint32_def)

subsection \<open>C3\<close>

text \<open>
  Claim C3. Every segment returned by the combined query (GetTypeVMSegments), by the
  gateway flattening and its getter, and by the catch-all computation has id 1, whatever
  the engine state, the arguments and the snapshot are, and so however many networks
  were merged. The cached lists the two getters return carry id 1 after every sequence
  of operations on a newly constructed engine.
\<close>

theorem fixed_id_segments:
  "(\<forall>segment \<in> set (fst (GetTypeVMSegments launchServer hostID s)). seg_Id segment = 1) \<and>
   (\<forall>segment \<in> set (allGatewayHostSegments (generateGatewayHostSegments s)). seg_Id segment = 1) \<and>
   (\<forall>segment \<in> set (fst (notYetClaimedSegments rawData s)). seg_Id segment = 1) \<and>
   (\<forall>segment \<in> set (fst (GetAllGatewayHostSegments (engine_after ops))). seg_Id segment = 1) \<and>
   (\<forall>segment \<in> set (fst (GetNotVtapUsedSegments (engine_after ops))). seg_Id segment = 1)"
proof (intro conjI)
  show "\<forall>segment \<in> set (fst (GetTypeVMSegments launchServer hostID s)). seg_Id segment = 1"
    by (simp add: GetTypeVMSegments_eq)
  show "\<forall>segment \<in> set (allGatewayHostSegments (generateGatewayHostSegments s)). seg_Id segment = 1"
    by (simp add: generateGatewayHostSegments_eq gateway_view_def)
  show "\<forall>segment \<in> set (fst (notYetClaimedSegments rawData s)). seg_Id segment = 1"
    by (simp add: notYetClaimedSegments_fst catch_all_def)
  show "\<forall>segment \<in> set (fst (GetAllGatewayHostSegments (engine_after ops))). seg_Id segment = 1"
    using fixed_ids_engine_after [of ops]
    by (simp add: fixed_ids_def GetAllGatewayHostSegments_def)
  show "\<forall>segment \<in> set (fst (GetNotVtapUsedSegments (engine_after ops))). seg_Id segment = 1"
    using fixed_ids_engine_after [of ops]
    by (simp add: fixed_ids_def GetNotVtapUsedSegments_def)
qed

theorem fixed_id_segments_witness:
  "fst (GetTypeVMSegments ''H1'' 1 scenario_engine) =
     [\<lparr>seg_Id = 1, seg_Mac = [''a2'', ''a6'', ''a3'', ''a4'', ''a1''],
       seg_InterfaceId = [2, 6, 3, 4, 1]\<rparr>] \<and>
   seg_Id (hd (fst (GetTypeVMSegments ''H1'' 1 scenario_engine))) = 1 \<and>
   seg_Id (hd (fst (notYetClaimedSegments scenario scenario_engine))) = 1 \<and>
   seg_Id (hd (fst (GetAllGatewayHostSegments (engine_after [Rebuild scenario, ClearClaimed])))) = 1"
  using fixed_id_segments [of "''H1''" 1 scenario_engine scenario
      "[Rebuild scenario, ClearClaimed]"]
  unfolding scenario_engine_after scenario_combined scenario_all_unclaimed scenario_gateway
  by simp

subsection \<open>C4\<close>

text \<open>
  Claim C4. The build does not do what the claim says for byVMID. In \<open>bare_vm_snapshot\<close> pod
  31 with interface a4 runs on pod-node 21 with interface a3, VM 11 owns the pod-node, and
  both interfaces have a MAC; VM 11 has no interface of its own, so it has no entry in
  \<open>vmIDToVifs\<close>. convertDBInfo puts a3 and a4 under VM 11 in \<open>vmIDToPodNodeAllVifs\<close>,
  byPodNodeID(21) returns both, and byLaunchServer(H1) returns both, since the loop over
  the launch servers looks the closure up for every VM id of the server. The loop that
  builds \<open>vmIDToSegments\<close> visits the keys of \<open>vmIDToVifs\<close> only: the index gets no entry for
  VM 11 and byVMID(11) returns the empty list, where the claim (and the comment on the
  field \<open>vmIDToSegments\<close>, all interfaces of the VM with those of its pods and pod-nodes)
  asks for a3 and a4. By \<open>byVMID_without_entry\<close> the same happens, in whatever order the
  maps are visited, for every VM without an entry in \<open>vmIDToVifs\<close>.
\<close>

theorem byVMID_drops_closure_of_bare_vm:
  "podnode_ID ` snd ` set (idToPodNode bare_vm_snapshot) = {21} \<and>
   map_of (podNodeIDToVmID bare_vm_snapshot) 21 = Some 11 \<and>
   map_of (podNodeIDToVifs bare_vm_snapshot) 21 = Some [vif ''a3'' 3 20] \<and>
   map_of (podNodeIDtoPodIDs bare_vm_snapshot) 21 = Some [31] \<and>
   map_of (podIDToVifs bare_vm_snapshot) 31 = Some [vif ''a4'' 4 20] \<and>
   map_of (vmIDToVifs bare_vm_snapshot) 11 = None \<and>
   vmIDToPodNodeAllVifs (generateBaseSegments bare_vm_snapshot newSegment) =
     [(11, [vif ''a3'' 3 20, vif ''a4'' 4 20])] \<and>
   returns (fst (GetPodNodeSegments 21 (generateBaseSegments bare_vm_snapshot newSegment)))
     (vif ''a4'' 4 20) \<and>
   returns (fst (GetPodNodeSegments 21 (generateBaseSegments bare_vm_snapshot newSegment)))
     (vif ''a3'' 3 20) \<and>
   returns (fst (GetLaunchServerSegments ''H1'' (generateBaseSegments bare_vm_snapshot newSegment)))
     (vif ''a4'' 4 20) \<and>
   returns (fst (GetLaunchServerSegments ''H1'' (generateBaseSegments bare_vm_snapshot newSegment)))
     (vif ''a3'' 3 20) \<and>
   fst (GetVMIDSegments 11 (generateBaseSegments bare_vm_snapshot newSegment)) = [] \<and>
   \<not> returns (fst (GetVMIDSegments 11 (generateBaseSegments bare_vm_snapshot newSegment)))
       (vif ''a4'' 4 20) \<and>
   \<not> returns (fst (GetVMIDSegments 11 (generateBaseSegments bare_vm_snapshot newSegment)))
       (vif ''a3'' 3 20)"
  unfolding bare_vm_engine
  by (simp add: bare_vm_snapshot_def GetVMIDSegments_def GetPodNodeSegments_def
      GetLaunchServerSegments_def getSegmentsByID_eq getSegmentsByServer_eq network_segment_def
      returns_def vif_def uint32_def)

subsection \<open>C5\<close>

text \<open>
  Claim C5, as amended. NetworkMacs.add skips an interface whose MAC is empty, so after
  every sequence of operations no per-entity query, no combined query and no entry of the
  gateway list returns such an interface. GenerateNoVTapUsedSegments reads the device list
  of the snapshot and tests only the id: it returns every interface of the device list
  whose id is unclaimed, whatever its MAC.
\<close>

theorem empty_mac_not_indexed:
  "(vif_Mac v = [] \<longrightarrow> NetworkMacs_add v n = n) \<and>
   (vif_Mac v = [] \<longrightarrow> \<not> returns (fst (run_query q (engine_after ops))) v) \<and>
   (vif_Mac v = [] \<longrightarrow> \<not> returns (fst (GetAllGatewayHostSegments (engine_after ops))) v) \<and>
   (v \<in> set (deviceVifs rawData) \<and> vif_ID v \<notin> vtapUsedVInterfaceIDs s \<longrightarrow>
      returns (fst (notYetClaimedSegments rawData s)) v)"
  by (simp add: NetworkMacs_add_def query_no_empty_mac gateway_no_empty_mac
      engine_ok_engine_after returns_unclaimed)

theorem empty_mac_not_indexed_witness:
  "vif_Mac (vif [] 7 10) = [] \<and>
   NetworkMacs_add (vif [] 7 10) [] = [] \<and>
   fst (run_query (ByHostID 1) (engine_after [Rebuild emptymac_snapshot, ClearClaimed, Query (ByHostID 1)])) =
     [\<lparr>seg_Id = 10, seg_Mac = [''a1''], seg_InterfaceId = [1]\<rparr>] \<and>
   \<not> returns
       (fst (run_query (ByHostID 1)
               (engine_after [Rebuild emptymac_snapshot, ClearClaimed, Query (ByHostID 1)])))
       (vif [] 7 10) \<and>
   returns
     (fst (notYetClaimedSegments emptymac_snapshot
             (engine_after [Rebuild emptymac_snapshot, ClearClaimed, Query (ByHostID 1)])))
     (vif [] 7 10)"
  using empty_mac_not_indexed [of "vif [] 7 10" "[]" "ByHostID 1"
      "[Rebuild emptymac_snapshot, ClearClaimed, Query (ByHostID 1)]" emptymac_snapshot
      "engine_after [Rebuild emptymac_snapshot, ClearClaimed, Query (ByHostID 1)]"]
    emptymac_host
  unfolding emptymac_engine_after emptymac_engine
  by (simp add: vif_def emptymac_snapshot_def)

text \<open>
  The claim as stated fails for notYetClaimedSegments: the interface of host 1 with the
  empty MAC and id 7 is in the device list, byHostID(1) does not claim it, and the
  catch-all segment returns it.
\<close>

theorem empty_mac_returned_by_catch_all:
  "vif_Mac (vif [] 7 10) = [] \<and>
   vif [] 7 10 \<in> set (deviceVifs emptymac_snapshot) \<and>
   fst (notYetClaimedSegments emptymac_snapshot
          (snd (GetHostIDSegments 1
                  (ClearVTapUsedVInterfaceIDs (generateBaseSegments emptymac_snapshot newSegment))))) =
     [\<lparr>seg_Id = 1, seg_Mac = [[]], seg_InterfaceId = [7]\<rparr>] \<and>
   returns
     (fst (notYetClaimedSegments emptymac_snapshot
             (snd (GetHostIDSegments 1
                     (ClearVTapUsedVInterfaceIDs (generateBaseSegments emptymac_snapshot newSegment))))))
     (vif [] 7 10)"
  unfolding emptymac_engine
  by (simp add: notYetClaimedSegments_fst unclaimed_def emptymac_snapshot_def vif_def
      catch_all_def returns_def uint32_def)

subsection \<open>C6\<close>

text \<open>
  Claim C6. GetAllGatewayHostSegments returns the cached list and leaves the engine state
  as it is; the flattening that fills the cache (generateGatewayHostSegments) does not
  touch the claimed set. So neither changes the result of a following
  notYetClaimedSegments, and an interface of the device list whose id is unclaimed (a
  gateway interface among them) is still returned by it.
\<close>

theorem gateway_segments_claim_nothing:
  "snd (GetAllGatewayHostSegments s) = s \<and>
   vtapUsedVInterfaceIDs (generateGatewayHostSegments s) = vtapUsedVInterfaceIDs s \<and>
   fst (notYetClaimedSegments rawData (snd (GetAllGatewayHostSegments s))) =
     fst (notYetClaimedSegments rawData s) \<and>
   fst (notYetClaimedSegments rawData (generateGatewayHostSegments s)) =
     fst (notYetClaimedSegments rawData s) \<and>
   (v \<in> set (deviceVifs rawData) \<and> vif_ID v \<notin> vtapUsedVInterfaceIDs s \<longrightarrow>
      returns (fst (notYetClaimedSegments rawData (snd (GetAllGatewayHostSegments s)))) v)"
proof (intro conjI impI)
  show "snd (GetAllGatewayHostSegments s) = s"
    by (simp add: GetAllGatewayHostSegments_def)
  show "vtapUsedVInterfaceIDs (generateGatewayHostSegments s) = vtapUsedVInterfaceIDs s"
    by (rule generateGatewayHostSegments_used)
  show "fst (notYetClaimedSegments rawData (snd (GetAllGatewayHostSegments s))) =
     fst (notYetClaimedSegments rawData s)"
    by (simp add: GetAllGatewayHostSegments_def)
  show "fst (notYetClaimedSegments rawData (generateGatewayHostSegments s)) =
     fst (notYetClaimedSegments rawData s)"
    by (simp add: notYetClaimedSegments_fst generateGatewayHostSegments_used)
next
  assume "v \<in> set (deviceVifs rawData) \<and> vif_ID v \<notin> vtapUsedVInterfaceIDs s"
  then show "returns (fst (notYetClaimedSegments rawData (snd (GetAllGatewayHostSegments s)))) v"
    by (simp add: GetAllGatewayHostSegments_def returns_unclaimed)
qed

theorem gateway_segments_claim_nothing_witness:
  "snd (GetAllGatewayHostSegments scenario_engine) = scenario_engine \<and>
   fst (GetAllGatewayHostSegments scenario_engine) =
     [\<lparr>seg_Id = 1, seg_Mac = [''a5''], seg_InterfaceId = [5]\<rparr>] \<and>
   vif ''a5'' 5 30 \<in> set (deviceVifs scenario) \<and>
   returns (fst (notYetClaimedSegments scenario (snd (GetAllGatewayHostSegments scenario_engine))))
     (vif ''a5'' 5 30)"
  using gateway_segments_claim_nothing [of scenario_engine scenario "vif ''a5'' 5 30"]
  by (simp add: scenario_engine_eq GetAllGatewayHostSegments_def scenario_def)

subsection \<open>C7\<close>

text \<open>
  Claim C7, as amended. Go visits a map and a set in an order it chooses anew at every
  \<open>range\<close> and \<open>Iter\<close>, and the slices of a result are filled in the order of the visit. So
  two runs on one snapshot agree on what they return, not on the order. For a snapshot
  with one entry per key and no element twice in a set, take any valid orders for the two
  builds and the query of the one run and for the build and the query of the other, and
  any states the engines were in before: every query returns the same multiset of
  segments, a segment being its id with the multiset of its pairs of MAC and interface
  id; the claimed set after the query is the same; the gateway list holds the same
  multiset of segments; and the catch-all after the same queries, each in any valid order,
  is the same list. The functions that visit in list order are the instance \<open>forward\<close>.
\<close>

theorem rebuild_same_up_to_order:
  "(wf_PlatformRawData rawData \<and> wf_sets rawData \<and>
    valid_order o1 \<and> valid_order o2 \<and> valid_order o3 \<and> valid_order o4 \<and> valid_order o5 \<and>
    (\<forall>oq \<in> set oqs. valid_order (fst oq)) \<and> (\<forall>oq \<in> set oqs'. valid_order (fst oq)) \<and>
    map snd oqs = map snd oqs' \<longrightarrow>
      content (fst (run_query_ord o3 q
                 (ClearVTapUsedVInterfaceIDs
                    (generateBaseSegments_ord o2 rawData (generateBaseSegments_ord o1 rawData s))))) =
      content (fst (run_query_ord o5 q
                 (ClearVTapUsedVInterfaceIDs (generateBaseSegments_ord o4 rawData s')))) \<and>
      vtapUsedVInterfaceIDs
        (snd (run_query_ord o3 q
                (ClearVTapUsedVInterfaceIDs
                   (generateBaseSegments_ord o2 rawData (generateBaseSegments_ord o1 rawData s))))) =
      vtapUsedVInterfaceIDs
        (snd (run_query_ord o5 q
                (ClearVTapUsedVInterfaceIDs (generateBaseSegments_ord o4 rawData s')))) \<and>
      content (fst (GetAllGatewayHostSegments
                 (ClearVTapUsedVInterfaceIDs
                    (generateBaseSegments_ord o2 rawData (generateBaseSegments_ord o1 rawData s))))) =
      content (fst (GetAllGatewayHostSegments
                 (ClearVTapUsedVInterfaceIDs (generateBaseSegments_ord o4 rawData s')))) \<and>
      fst (notYetClaimedSegments rawData
             (run_queries_ord oqs
                (ClearVTapUsedVInterfaceIDs
                   (generateBaseSegments_ord o2 rawData (generateBaseSegments_ord o1 rawData s))))) =
      fst (notYetClaimedSegments rawData
             (run_queries_ord oqs'
                (ClearVTapUsedVInterfaceIDs (generateBaseSegments_ord o4 rawData s'))))) \<and>
   generateBaseSegments_ord forward rawData s = generateBaseSegments rawData s \<and>
   run_query_ord forward q s = run_query q s"
proof (intro conjI impI)
  show "generateBaseSegments_ord forward rawData s = generateBaseSegments rawData s"
    by (rule generateBaseSegments_forward)
  show "run_query_ord forward q s = run_query q s"
    by (rule run_query_forward)
next
  assume h: "wf_PlatformRawData rawData \<and> wf_sets rawData \<and>
    valid_order o1 \<and> valid_order o2 \<and> valid_order o3 \<and> valid_order o4 \<and> valid_order o5 \<and>
    (\<forall>oq \<in> set oqs. valid_order (fst oq)) \<and> (\<forall>oq \<in> set oqs'. valid_order (fst oq)) \<and>
    map snd oqs = map snd oqs'"
  let ?L = "ClearVTapUsedVInterfaceIDs
      (generateBaseSegments_ord o2 rawData (generateBaseSegments_ord o1 rawData s))"
  let ?R = "ClearVTapUsedVInterfaceIDs (generateBaseSegments_ord o4 rawData s')"
  from h have wf: "wf_PlatformRawData rawData" and sets: "wf_sets rawData"
    and v2: "valid_order o2" and v3: "valid_order o3" and v4: "valid_order o4"
    and v5: "valid_order o5"
    and vs: "\<forall>oq \<in> set oqs. valid_order (fst oq)" and vs': "\<forall>oq \<in> set oqs'. valid_order (fst oq)"
    and same: "map snd oqs = map snd oqs'"
    by simp_all
  note g = groups_build [OF wf sets v2 v4, of "generateBaseSegments_ord o1 rawData s" _ s']
  have g1: "groups (found (launchServerToSegments ?L) k) = groups (found (launchServerToSegments ?R) k)"
    for k
    by (simp add: found_clear g(1))
  have g2: "groups (found (hostIDToSegments ?L) k) = groups (found (hostIDToSegments ?R) k)" for k
    by (simp add: found_clear g(2))
  have g3: "groups (found (vmIDToSegments ?L) k) = groups (found (vmIDToSegments ?R) k)" for k
    by (simp add: found_clear g(3))
  have g4: "groups (found (podNodeIDToSegments ?L) k) = groups (found (podNodeIDToSegments ?R) k)"
    for k
    by (simp add: found_clear g(4))
  show "content (fst (run_query_ord o3 q ?L)) = content (fst (run_query_ord o5 q ?R))"
    using v3 v5 g1 g2 g3 g4 by (rule query_cong(1))
  have ids: "query_ids q' ?L = query_ids q' ?R" for q'
    using v3 v5 g1 g2 g3 g4 by (rule query_cong(2))
  show "vtapUsedVInterfaceIDs (snd (run_query_ord o3 q ?L)) =
      vtapUsedVInterfaceIDs (snd (run_query_ord o5 q ?R))"
    using ids [of q]
    by (simp add: run_query_ord_state [OF v3] run_query_ord_state [OF v5] run_query_state
        found_clear)
  from wf have "distinct (map fst (gatewayHostIDToVifs rawData))"
    by (simp add: wf_PlatformRawData_def)
  from gateway_content_ord [OF this v2 v4]
  show "content (fst (GetAllGatewayHostSegments ?L)) = content (fst (GetAllGatewayHostSegments ?R))"
    by (simp add: GetAllGatewayHostSegments_def found_clear)
  have ids': "query_ids q' (generateBaseSegments_ord o2 rawData (generateBaseSegments_ord o1 rawData s)) =
      query_ids q' (generateBaseSegments_ord o4 rawData s')" for q'
    using ids [of q'] by simp
  have "vtapUsedVInterfaceIDs (run_queries_ord oqs ?L) = vtapUsedVInterfaceIDs (run_queries_ord oqs' ?R)"
    by (simp add: run_queries_ord_state [OF vs] run_queries_ord_state [OF vs'] run_queries_state
        found_clear ids' same)
  then show "fst (notYetClaimedSegments rawData (run_queries_ord oqs ?L)) =
      fst (notYetClaimedSegments rawData (run_queries_ord oqs' ?R))"
    by (simp add: notYetClaimedSegments_fst)
qed

theorem rebuild_same_up_to_order_witness:
  "wf_PlatformRawData scenario \<and> wf_sets scenario \<and> valid_order forward \<and> valid_order backward \<and>
   content (fst (run_query_ord forward (ByVMID 11)
                   (ClearVTapUsedVInterfaceIDs
                      (generateBaseSegments_ord forward scenario
                         (generateBaseSegments_ord forward scenario newSegment))))) =
   content (fst (run_query_ord backward (ByVMID 11)
                   (ClearVTapUsedVInterfaceIDs (generateBaseSegments_ord backward scenario newSegment)))) \<and>
   content [\<lparr>seg_Id = 10, seg_Mac = [''a2''], seg_InterfaceId = [2]\<rparr>,
            \<lparr>seg_Id = 20, seg_Mac = [''a3'', ''a4''], seg_InterfaceId = [3, 4]\<rparr>] =
   content [\<lparr>seg_Id = 20, seg_Mac = [''a4'', ''a3''], seg_InterfaceId = [4, 3]\<rparr>,
            \<lparr>seg_Id = 10, seg_Mac = [''a2''], seg_InterfaceId = [2]\<rparr>] \<and>
   fst (notYetClaimedSegments scenario
          (run_queries_ord [(forward, ByVMID 11)]
             (ClearVTapUsedVInterfaceIDs
                (generateBaseSegments_ord forward scenario
                   (generateBaseSegments_ord forward scenario newSegment))))) =
   fst (notYetClaimedSegments scenario
          (run_queries_ord [(backward, ByVMID 11)]
             (ClearVTapUsedVInterfaceIDs (generateBaseSegments_ord backward scenario newSegment))))"
proof -
  have h: "wf_PlatformRawData scenario \<and> wf_sets scenario \<and>
    valid_order forward \<and> valid_order forward \<and> valid_order forward \<and> valid_order backward \<and>
    valid_order backward \<and>
    (\<forall>oq \<in> set [(forward, ByVMID 11)]. valid_order (fst oq)) \<and>
    (\<forall>oq \<in> set [(backward, ByVMID 11)]. valid_order (fst oq)) \<and>
    map snd [(forward, ByVMID 11)] = map snd [(backward, ByVMID 11)]"
    by (simp add: scenario_wf scenario_sets valid_forward valid_backward)
  note t = rebuild_same_up_to_order [of scenario forward forward forward backward backward
      "[(forward, ByVMID 11)]" "[(backward, ByVMID 11)]" "ByVMID 11" newSegment newSegment,
      THEN conjunct1, THEN mp, OF h]
  note c1 = t [THEN conjunct1]
  note c4 = t [THEN conjunct2, THEN conjunct2, THEN conjunct2]
  from c1 have c1': "content [\<lparr>seg_Id = 10, seg_Mac = [''a2''], seg_InterfaceId = [2]\<rparr>,
            \<lparr>seg_Id = 20, seg_Mac = [''a3'', ''a4''], seg_InterfaceId = [3, 4]\<rparr>] =
      content [\<lparr>seg_Id = 20, seg_Mac = [''a4'', ''a3''], seg_InterfaceId = [4, 3]\<rparr>,
            \<lparr>seg_Id = 10, seg_Mac = [''a2''], seg_InterfaceId = [2]\<rparr>]"
    unfolding scenario_forward_vm scenario_backward_vm .
  from h c1 c1' c4 show ?thesis
    by blast
qed

text \<open>
  The claim as stated fails: the results of two runs need not be identical. On the
  scenario, byVMID(11) after a run that visits every map and set in list order and after a
  run that visits them in the reverse order: the two segments come in the other order, and
  so do a3 and a4 within the segment of network 20.
\<close>

theorem rebuild_order_differs:
  "wf_PlatformRawData scenario \<and> wf_sets scenario \<and> valid_order forward \<and> valid_order backward \<and>
   fst (run_query_ord forward (ByVMID 11)
          (ClearVTapUsedVInterfaceIDs
             (generateBaseSegments_ord forward scenario
                (generateBaseSegments_ord forward scenario newSegment)))) =
     [\<lparr>seg_Id = 10, seg_Mac = [''a2''], seg_InterfaceId = [2]\<rparr>,
      \<lparr>seg_Id = 20, seg_Mac = [''a3'', ''a4''], seg_InterfaceId = [3, 4]\<rparr>] \<and>
   fst (run_query_ord backward (ByVMID 11)
          (ClearVTapUsedVInterfaceIDs (generateBaseSegments_ord backward scenario newSegment))) =
     [\<lparr>seg_Id = 20, seg_Mac = [''a4'', ''a3''], seg_InterfaceId = [4, 3]\<rparr>,
      \<lparr>seg_Id = 10, seg_Mac = [''a2''], seg_InterfaceId = [2]\<rparr>] \<and>
   fst (run_query_ord forward (ByVMID 11)
          (ClearVTapUsedVInterfaceIDs
             (generateBaseSegments_ord forward scenario
                (generateBaseSegments_ord forward scenario newSegment)))) \<noteq>
   fst (run_query_ord backward (ByVMID 11)
          (ClearVTapUsedVInterfaceIDs (generateBaseSegments_ord backward scenario newSegment)))"
  unfolding scenario_forward_vm scenario_backward_vm
  by (simp add: scenario_wf scenario_sets valid_forward valid_backward)

subsection \<open>C8\<close>

text \<open>
  Claim C8. For a key its index does not hold, each of the four per-entity queries
  returns the empty list, and the engine state (the claimed set with it) is unchanged.
  The result type has no error: the query returns.
\<close>

theorem unknown_key_empty:
  "(map_of (launchServerToSegments s) launchServer = None \<longrightarrow>
      GetLaunchServerSegments launchServer s = ([], s)) \<and>
   (map_of (hostIDToSegments s) hostID = None \<longrightarrow> GetHostIDSegments hostID s = ([], s)) \<and>
   (map_of (vmIDToSegments s) vmID = None \<longrightarrow> GetVMIDSegments vmID s = ([], s)) \<and>
   (map_of (podNodeIDToSegments s) podNodeID = None \<longrightarrow> GetPodNodeSegments podNodeID s = ([], s))"
  by (simp add: GetLaunchServerSegments_def GetHostIDSegments_def GetVMIDSegments_def
      GetPodNodeSegments_def getSegmentsByID_def getSegmentsByServer_def)

theorem unknown_key_empty_witness:
  "GetLaunchServerSegments ''H9'' scenario_engine = ([], scenario_engine) \<and>
   GetHostIDSegments 9 scenario_engine = ([], scenario_engine) \<and>
   GetVMIDSegments 9 scenario_engine = ([], scenario_engine) \<and>
   GetPodNodeSegments 9 scenario_engine = ([], scenario_engine)"
  using unknown_key_empty [of scenario_engine "''H9''" 9 9 9]
  by (simp add: scenario_engine_eq)

subsection \<open>C9\<close>

text \<open>
  Claim C9. A query keeps every id the claimed set holds, and so does a sequence of
  queries; every operation other than the reset keeps them too, and the reset leaves the
  set empty.
\<close>

theorem claimed_set_grows:
  "vtapUsedVInterfaceIDs s \<subseteq> vtapUsedVInterfaceIDs (snd (run_query q s)) \<and>
   vtapUsedVInterfaceIDs s \<subseteq> vtapUsedVInterfaceIDs (run_queries qs s) \<and>
   (op \<noteq> ClearClaimed \<longrightarrow>
      vtapUsedVInterfaceIDs s \<subseteq> vtapUsedVInterfaceIDs (run_operation op s)) \<and>
   vtapUsedVInterfaceIDs (run_operation ClearClaimed s) = {}"
  by (simp add: run_query_state run_queries_state run_operation_used
      ClearVTapUsedVInterfaceIDs_def)

theorem claimed_set_grows_witness:
  "vtapUsedVInterfaceIDs scenario_engine
     \<subseteq> vtapUsedVInterfaceIDs (snd (run_query (ByVMID 11) scenario_engine)) \<and>
   vtapUsedVInterfaceIDs scenario_engine
     \<subseteq> vtapUsedVInterfaceIDs (run_queries [ByVMID 11, ByHostID 1] scenario_engine) \<and>
   vtapUsedVInterfaceIDs scenario_engine
     \<subseteq> vtapUsedVInterfaceIDs (run_operation (Query (ByHostID 1)) scenario_engine) \<and>
   vtapUsedVInterfaceIDs (run_operation ClearClaimed scenario_engine) = {}"
  using claimed_set_grows [of scenario_engine "ByVMID 11" "[ByVMID 11, ByHostID 1]" "Query (ByHostID 1)"]
  by simp

subsection \<open>C10\<close>

text \<open>
  Claim C10. GetTypeVMSegments returns a list of exactly one segment for every pair of
  arguments; when neither key is known the segment has id 1 and empty \<open>Mac\<close> and
  \<open>InterfaceId\<close>, and the state is unchanged. notYetClaimedSegments, in contrast, returns
  the empty list when every interface of the device list is claimed.
\<close>

theorem GetTypeVMSegments_single:
  "length (fst (GetTypeVMSegments launchServer hostID s)) = 1 \<and>
   (map_of (launchServerToSegments s) launchServer = None \<and>
    map_of (hostIDToSegments s) hostID = None \<longrightarrow>
      GetTypeVMSegments launchServer hostID s =
        ([\<lparr>seg_Id = 1, seg_Mac = [], seg_InterfaceId = []\<rparr>], s)) \<and>
   ((\<forall>v \<in> set (deviceVifs rawData). vif_ID v \<in> vtapUsedVInterfaceIDs s) \<longrightarrow>
      fst (notYetClaimedSegments rawData s) = [])"
proof (intro conjI impI)
  show "length (fst (GetTypeVMSegments launchServer hostID s)) = 1"
    by (simp add: GetTypeVMSegments_eq)
next
  assume "map_of (launchServerToSegments s) launchServer = None \<and>
    map_of (hostIDToSegments s) hostID = None"
  then show "GetTypeVMSegments launchServer hostID s =
        ([\<lparr>seg_Id = 1, seg_Mac = [], seg_InterfaceId = []\<rparr>], s)"
    by (simp add: GetTypeVMSegments_eq found_def index_ids_def macIDs_of_def)
next
  assume "\<forall>v \<in> set (deviceVifs rawData). vif_ID v \<in> vtapUsedVInterfaceIDs s"
  then have "unclaimed rawData (vtapUsedVInterfaceIDs s) = []"
    by (simp add: unclaimed_def filter_empty_conv)
  then show "fst (notYetClaimedSegments rawData s) = []"
    by (simp add: notYetClaimedSegments_fst)
qed

theorem GetTypeVMSegments_single_witness:
  "length (fst (GetTypeVMSegments ''H9'' 9 (snd (GetHostIDSegments 1 scenario_engine)))) = 1 \<and>
   GetTypeVMSegments ''H9'' 9 (snd (GetHostIDSegments 1 scenario_engine)) =
     ([\<lparr>seg_Id = 1, seg_Mac = [], seg_InterfaceId = []\<rparr>], snd (GetHostIDSegments 1 scenario_engine)) \<and>
   fst (notYetClaimedSegments (scenario\<lparr>deviceVifs := [vif ''a1'' 1 10]\<rparr>)
          (snd (GetHostIDSegments 1 scenario_engine))) = []"
  using GetTypeVMSegments_single [of "''H9''" 9 "snd (GetHostIDSegments 1 scenario_engine)"
      "scenario\<lparr>deviceVifs := [vif ''a1'' 1 10]\<rparr>"]
  unfolding scenario_host_claimed
  by (simp add: scenario_engine_eq vif_def)

end
